theory Spec2Isabelle
  imports Main "HOL-Library.Word" "HOL-Library.Sublist"
begin

section \<open>rslurp: a shallow embedding of rslurp.go\<close>

text \<open>
  The program downloads the files linked from directory listing pages. Its pure parts
  (path computation, link filtering, the status dispatch) are HOL functions; everything
  it does to the outside (HTTP requests, the temporary file, the output sink, the log,
  the user interface channel) is recorded in an event trace that is threaded through
  the functions together with the shared byte counter. The outcome of every outside
  call is read from a \<open>world\<close>, so each error return of the source is a branch of
  the model.
\<close>

subsection \<open>Strings and the Go library functions the program calls\<close>

text \<open>Go strings are byte sequences; \<open>string\<close> is a list of 8-bit characters.\<close>

definition HasSuffix :: "string \<Rightarrow> string \<Rightarrow> bool" where
  \<comment> \<open>\<open>strings.HasSuffix(s, suffix)\<close>\<close>
  "HasSuffix s suf = (length suf \<le> length s \<and> drop (length s - length suf) s = suf)"

fun HasPrefix :: "string \<Rightarrow> string \<Rightarrow> bool" where
  \<comment> \<open>\<open>strings.HasPrefix(s, prefix)\<close>\<close>
  "HasPrefix s [] = True"
| "HasPrefix [] (p # ps) = False"
| "HasPrefix (c # cs) (p # ps) = (c = p \<and> HasPrefix cs ps)"

fun Contains :: "string \<Rightarrow> string \<Rightarrow> bool" where
  \<comment> \<open>\<open>strings.Contains(s, substr)\<close>: \<open>substr\<close> starts at some position of \<open>s\<close>\<close>
  "Contains [] substr = (substr = [])"
| "Contains (c # cs) substr = (HasPrefix (c # cs) substr \<or> Contains cs substr)"

definition digit :: "nat \<Rightarrow> char" where
  "digit d = char_of (48 + d)"

function fmt_nat :: "nat \<Rightarrow> string" where
  \<comment> \<open>decimal digits of a natural number, most significant first\<close>
  "fmt_nat n = (if n < 10 then [digit n] else fmt_nat (n div 10) @ [digit (n mod 10)])"
  by pat_completeness auto
termination
  by (relation "measure id") auto

declare fmt_nat.simps [simp del]

definition fmt_d :: "int \<Rightarrow> string" where
  \<comment> \<open>the verb \<open>%d\<close> of \<open>fmt\<close> on an integer\<close>
  "fmt_d i = (if i < 0 then CHR ''-'' # fmt_nat (nat (- i)) else fmt_nat (nat i))"

text \<open>
  Package \<open>path\<close> of the Go library. \<open>path.Base\<close> returns the last element of a
  path, after removing trailing slashes. \<open>path.Clean\<close> drops empty and \<open>.\<close>
  elements, cancels an inner \<open>..\<close> against the element before it and drops \<open>..\<close>
  at the start of a rooted path; \<open>path.Join\<close> joins its elements with slashes,
  ignoring leading empty ones, and cleans the result.
\<close>

definition path_Base :: "string \<Rightarrow> string" where
  "path_Base p =
     (if p = [] then ''.''
      else let stripped = rev (dropWhile (\<lambda>c. c = CHR ''/'') (rev p));
               last_elem = rev (takeWhile (\<lambda>c. c \<noteq> CHR ''/'') (rev stripped))
           in if last_elem = [] then ''/'' else last_elem)"

fun split_slash :: "string \<Rightarrow> string list" where
  "split_slash [] = [[]]"
| "split_slash (c # cs) =
     (if c = CHR ''/'' then [] # split_slash cs
      else (case split_slash cs of
              [] \<Rightarrow> [[c]]
            | e # es \<Rightarrow> (c # e) # es))"

fun join_slash :: "string list \<Rightarrow> string" where
  "join_slash [] = []"
| "join_slash [e] = e"
| "join_slash (e # es) = e @ CHR ''/'' # join_slash es"

definition clean_elem :: "bool \<Rightarrow> string list \<Rightarrow> string \<Rightarrow> string list" where
  \<comment> \<open>one path element against the elements kept so far (innermost first)\<close>
  "clean_elem rooted kept e =
     (if e = [] \<or> e = ''.'' then kept
      else if e = ''..'' then
        (case kept of
           [] \<Rightarrow> if rooted then [] else [''..'']
         | k # ks \<Rightarrow> if k = ''..'' then ''..'' # kept else ks)
      else e # kept)"

definition path_Clean :: "string \<Rightarrow> string" where
  "path_Clean p =
     (if p = [] then ''.''
      else let rooted = (hd p = CHR ''/'');
               kept = foldl (clean_elem rooted) [] (split_slash p);
               body = join_slash (rev kept);
               cleaned = (if rooted then CHR ''/'' # body else body)
           in if cleaned = [] then ''.'' else cleaned)"

definition path_Join :: "string list \<Rightarrow> string" where
  "path_Join elems =
     (if concat elems = [] then []
      else path_Clean (join_slash (dropWhile (\<lambda>e. e = []) elems)))"

subsection \<open>Flags\<close>

record config =
  numWorkers :: int
  dryRun :: bool
  matching :: string
  verbose :: bool
  out :: string
  tarOut :: bool

subsection \<open>Listing pages: \<open>downloadDirs\<close>\<close>

text \<open>
  \<open>list\<close> fetches a page and returns the distinct \<open>href\<close> targets in it; its result
  comes from the network and is a parameter here (\<open>Inl\<close> is its error). The regular
  expression library is a parameter too: \<open>Compiles\<close> says whether \<open>regexp.MustCompile\<close>
  accepts a pattern (it panics otherwise), \<open>MatchString\<close> is the match of a compiled
  pattern against a string.
\<close>

record regexp =
  Compiles :: "string \<Rightarrow> bool"
  MatchString :: "string \<Rightarrow> string \<Rightarrow> bool"

datatype dirs_result =
    Panicked string
  | ListFailed string
  | Files "string list"

fun filter_links :: "(string \<Rightarrow> bool) \<Rightarrow> string \<Rightarrow> string list \<Rightarrow> string list \<Rightarrow> string list" where
  \<comment> \<open>the inner loop of \<open>downloadDirs\<close> over the links \<open>fs\<close> of one page, appending to \<open>files\<close>\<close>
  "filter_links fileRE d [] files = files"
| "filter_links fileRE d (fn # fs) files =
     (if Contains fn ''/'' then filter_links fileRE d fs files
      else if fileRE fn then filter_links fileRE d fs (files @ [d @ fn])
      else filter_links fileRE d fs files)"

definition with_slash :: "string \<Rightarrow> string" where
  \<comment> \<open>\<open>if !strings.HasSuffix(d, "/") { d += "/" }\<close>\<close>
  "with_slash d = (if \<not> HasSuffix d ''/'' then d @ ''/'' else d)"

fun dirs_loop ::
  "(string \<Rightarrow> bool) \<Rightarrow> (string \<Rightarrow> string + string list) \<Rightarrow> string list \<Rightarrow> string list \<Rightarrow> dirs_result"
where
  \<comment> \<open>the outer loop of \<open>downloadDirs\<close> over the listing addresses\<close>
  "dirs_loop fileRE list [] files = Files files"
| "dirs_loop fileRE list (d # ds) files =
     (case list d of
        Inl err \<Rightarrow> ListFailed err
      | Inr fs \<Rightarrow> dirs_loop fileRE list ds (filter_links fileRE (with_slash d) fs files))"

definition downloadDirs ::
  "config \<Rightarrow> regexp \<Rightarrow> (string \<Rightarrow> string + string list) \<Rightarrow> string list \<Rightarrow> dirs_result"
where
  \<comment> \<open>\<open>Files files\<close>: the list handed to \<open>downloadFiles\<close>\<close>
  "downloadDirs cfg re list urls =
     (if \<not> Compiles re (matching cfg) then Panicked (matching cfg)
      else dirs_loop (MatchString re (matching cfg)) list urls [])"

subsection \<open>Requests, responses and the outside world\<close>

record request =
  Method :: string
  URL :: string
  Header :: "(string \<times> string) list"

definition Header_Set :: "string \<Rightarrow> string \<Rightarrow> (string \<times> string) list \<Rightarrow> (string \<times> string) list" where
  \<comment> \<open>\<open>req.Header.Set(key, value)\<close>: the value replaces any earlier one\<close>
  "Header_Set k v h = (k, v) # filter (\<lambda>kv. fst kv \<noteq> k) h"

definition Header_Get :: "(string \<times> string) list \<Rightarrow> string \<Rightarrow> string option" where
  "Header_Get h k = map_of h k"

text \<open>
  A response body is what its successive \<open>Read\<close> calls deliver: the chunks of \<open>Body\<close>,
  then \<open>io.EOF\<close> when \<open>BodyErr\<close> is \<open>None\<close> and the read error otherwise.
  \<open>ContentLength\<close> is \<open>-1\<close> when the response declares no length.
\<close>

record response =
  StatusCode :: int
  ContentLength :: int
  Body :: "string list"
  BodyErr :: "string option"

datatype error =
    Passed string
  | StatusNotOK string int
  | CreatingTempfile string
  | SeekTmpfile string

text \<open>
  \<open>Passed e\<close> is an error returned by a callee and handed on unchanged; the other three
  are the errors \<open>slurp\<close> builds with \<open>fmt.Errorf\<close>.
\<close>

datatype writer = Tmpf | SinkWriter

datatype event =
    HttpDo request
  | BodyRead nat
  | BodyClose
  | TempFile
  | TempSeek
  | TempRemove
  | SinkCreate string int
  | SinkAppend string int
  | WriterWrite writer string
  | WriterClose writer

text \<open>
  The sink \<open>fileoutImpl\<close>: its two capability flags. The results of its \<open>Create\<close> and
  \<open>Append\<close>, like those of every other outside call, are read from the world: \<open>None\<close>
  is a nil error. The result of a \<open>Write\<close> may depend on everything done before it.
\<close>

record fileout =
  HasPartial :: bool
  FixedSizeOnly :: bool

record world =
  NewRequest_err :: "string \<Rightarrow> string option"
  Stat :: "string \<Rightarrow> int option"
  Do :: "request \<Rightarrow> string + response"
  TempFile_err :: "string option"
  Create_err :: "string \<Rightarrow> int \<Rightarrow> string option"
  Append_err :: "string \<Rightarrow> int \<Rightarrow> string option"
  Write_err :: "writer \<Rightarrow> event list \<Rightarrow> string option"
  Seek_err :: "string option"
  TempRead_err :: "string option"

record state =
  events :: "event list"
  counter :: "64 word"
  tmpf :: string

definition log_event :: "event \<Rightarrow> state \<Rightarrow> state" where
  "log_event e s = s\<lparr>events := events s @ [e]\<rparr>"

definition deferred :: "event \<Rightarrow> 'a \<times> state \<Rightarrow> 'a \<times> state" where
  \<comment> \<open>a \<open>defer\<close>: the call runs when the rest of the function has returned\<close>
  "deferred e r = (fst r, log_event e (snd r))"

subsection \<open>\<open>readWrapper\<close>, \<open>newRequest\<close> and \<open>io.Copy\<close>\<close>

definition readWrapper_Read :: "string \<Rightarrow> state \<Rightarrow> state" where
  \<comment> \<open>the child's \<open>Read\<close> delivered \<open>p\<close>; \<open>atomic.AddUint64(r.Counter, uint64(n))\<close>\<close>
  "readWrapper_Read p s =
     log_event (BodyRead (length p)) (s\<lparr>counter := counter s + of_nat (length p)\<rparr>)"

definition file_Read :: "string \<Rightarrow> state \<Rightarrow> state" where
  \<comment> \<open>a \<open>Read\<close> of the temporary file: no wrapper, nothing is counted\<close>
  "file_Read p s = s"

definition writer_Write :: "world \<Rightarrow> writer \<Rightarrow> string \<Rightarrow> state \<Rightarrow> string option \<times> state" where
  "writer_Write w d p s =
     (let s1 = log_event (WriterWrite d p) s in
      case Write_err w d (events s) of
        Some err \<Rightarrow> (Some err, s1)
      | None \<Rightarrow> (None, if d = Tmpf then s1\<lparr>tmpf := tmpf s1 @ p\<rparr> else s1))"

definition newRequest :: "world \<Rightarrow> string \<Rightarrow> error + request" where
  "newRequest w u =
     (case NewRequest_err w u of
        Some err \<Rightarrow> Inl (Passed err)
      | None \<Rightarrow> Inr \<lparr>Method = ''GET'', URL = u,
                     Header = Header_Set ''User-Agent'' ''rslurp 0.1'' []\<rparr>)"

fun io_Copy ::
  "(string \<Rightarrow> state \<Rightarrow> state) \<Rightarrow> (string \<Rightarrow> state \<Rightarrow> string option \<times> state) \<Rightarrow>
   string list \<Rightarrow> string option \<Rightarrow> int \<Rightarrow> state \<Rightarrow> (int \<times> string option) \<times> state"
where
  \<comment> \<open>\<open>io.Copy(dst, src)\<close>: \<open>rd\<close> is the effect of one \<open>src.Read\<close>, \<open>wr\<close> is \<open>dst.Write\<close>;
      the source delivers \<open>chunks\<close> and then ends with \<open>fin\<close>; the result is
      \<open>(written, err)\<close>\<close>
  "io_Copy rd wr [] fin written s = ((written, fin), rd [] s)"
| "io_Copy rd wr (p # chunks) fin written s =
     (let s1 = rd p s in
      if p = [] then io_Copy rd wr chunks fin written s1
      else (case wr p s1 of
              (Some err, s2) \<Rightarrow> ((written, Some err), s2)
            | (None, s2) \<Rightarrow> io_Copy rd wr chunks fin (written + int (length p)) s2))"

function chunks_of :: "nat \<Rightarrow> 'a list \<Rightarrow> 'a list list" where
  \<comment> \<open>what reading a file through a buffer of \<open>n\<close> bytes delivers\<close>
  "chunks_of n xs = (if n = 0 \<or> xs = [] then [] else take n xs # chunks_of n (drop n xs))"
  by pat_completeness auto
termination
  by (relation "measure (\<lambda>(n, xs). length xs)") auto

declare chunks_of.simps [simp del]

subsection \<open>\<open>slurp\<close>\<close>

record order =
  url :: string

definition rewrite_output :: "world \<Rightarrow> string \<Rightarrow> int \<Rightarrow> state \<Rightarrow> error option \<times> state" where
  \<comment> \<open>lines 129 to 141: the temporary file is copied to the proper output\<close>
  "rewrite_output w fullFilename fileLength s =
     (let s1 = log_event TempSeek s in
      case Seek_err w of
        Some err \<Rightarrow> (Some (SeekTmpfile err), s1)
      | None \<Rightarrow>
          (let s2 = log_event (SinkCreate fullFilename fileLength) s1 in
           case Create_err w fullFilename fileLength of
             Some err \<Rightarrow> (Some (Passed err), s2)
           | None \<Rightarrow>
               deferred (WriterClose SinkWriter)
                 (case io_Copy file_Read (writer_Write w SinkWriter)
                         (chunks_of 32768 (tmpf s2)) (TempRead_err w) 0 s2 of
                    (r, s3) \<Rightarrow> (map_option Passed (snd r), s3))))"

definition slurp_copy ::
  "fileout \<Rightarrow> world \<Rightarrow> string \<Rightarrow> response \<Rightarrow> writer \<Rightarrow> state \<Rightarrow> error option \<times> state"
where
  \<comment> \<open>lines 120 to 143, \<open>readTo\<close> being open\<close>
  "slurp_copy fo w fullFilename resp readTo s =
     deferred (WriterClose readTo)
       (case io_Copy readWrapper_Read (writer_Write w readTo) (Body resp) (BodyErr resp) 0 s of
          (r, s1) \<Rightarrow>
            (case snd r of
               Some err \<Rightarrow> (Some (Passed err), s1)
             | None \<Rightarrow>
                 if FixedSizeOnly fo \<and> ContentLength resp < 0
                 then rewrite_output w fullFilename (fst r) s1
                 else (None, s1)))"

definition slurp_open ::
  "fileout \<Rightarrow> world \<Rightarrow> string \<Rightarrow> response \<Rightarrow> bool \<Rightarrow> state \<Rightarrow> error option \<times> state"
where
  \<comment> \<open>lines 103 to 119: where the body is read to\<close>
  "slurp_open fo w fullFilename resp partial s =
     (if FixedSizeOnly fo \<and> ContentLength resp < 0 then
        (let s1 = log_event TempFile s in
         case TempFile_err w of
           Some err \<Rightarrow> (Some (CreatingTempfile err), s1)
         | None \<Rightarrow>
             deferred TempRemove (slurp_copy fo w fullFilename resp Tmpf (s1\<lparr>tmpf := []\<rparr>)))
      else if partial then
        (let s1 = log_event (SinkAppend fullFilename (ContentLength resp)) s in
         case Append_err w fullFilename (ContentLength resp) of
           Some err \<Rightarrow> (Some (Passed err), s1)
         | None \<Rightarrow> slurp_copy fo w fullFilename resp SinkWriter s1)
      else
        (let s1 = log_event (SinkCreate fullFilename (ContentLength resp)) s in
         case Create_err w fullFilename (ContentLength resp) of
           Some err \<Rightarrow> (Some (Passed err), s1)
         | None \<Rightarrow> slurp_copy fo w fullFilename resp SinkWriter s1))"

definition slurp_status ::
  "fileout \<Rightarrow> world \<Rightarrow> order \<Rightarrow> string \<Rightarrow> response \<Rightarrow> state \<Rightarrow> error option \<times> state"
where
  \<comment> \<open>lines 84 to 97: the switch on \<open>resp.StatusCode\<close>\<close>
  "slurp_status fo w od fullFilename resp s =
     (if StatusCode resp = 200 then slurp_open fo w fullFilename resp False s
      else if StatusCode resp = 206 then slurp_open fo w fullFilename resp True s
      else if StatusCode resp = 416 then (None, s)
      else (Some (StatusNotOK (url od) (StatusCode resp)), s))"

definition resume_header :: "fileout \<Rightarrow> world \<Rightarrow> string \<Rightarrow> request \<Rightarrow> request" where
  \<comment> \<open>lines 74 to 78; \<open>Stat w p = Some sz\<close>: \<open>os.Stat(p)\<close> returns no error and size \<open>sz\<close>\<close>
  "resume_header fo w fullFilename req =
     (if HasPartial fo then
        (case Stat w fullFilename of
           Some sz \<Rightarrow>
             req\<lparr>Header := Header_Set ''Range'' (''bytes='' @ fmt_d sz @ ''-'') (Header req)\<rparr>
         | None \<Rightarrow> req)
      else req)"

definition fullFilename_of :: "config \<Rightarrow> order \<Rightarrow> string" where
  \<comment> \<open>lines 66 and 67\<close>
  "fullFilename_of cfg od = (let fn = path_Base (url od) in path_Join [out cfg, fn])"

definition slurp_request :: "config \<Rightarrow> fileout \<Rightarrow> world \<Rightarrow> order \<Rightarrow> error + request" where
  \<comment> \<open>lines 66 to 78: the request that is handed to \<open>client.Do\<close>\<close>
  "slurp_request cfg fo w od =
     (case newRequest w (url od) of
        Inl err \<Rightarrow> Inl err
      | Inr req \<Rightarrow> Inr (resume_header fo w (fullFilename_of cfg od) req))"

definition slurp :: "config \<Rightarrow> fileout \<Rightarrow> world \<Rightarrow> order \<Rightarrow> state \<Rightarrow> error option \<times> state" where
  \<comment> \<open>the result is the returned error, \<open>None\<close> for nil\<close>
  "slurp cfg fo w od s =
     (if dryRun cfg then (None, s)
      else
        (case slurp_request cfg fo w od of
           Inl err \<Rightarrow> (Some err, s)
         | Inr req \<Rightarrow>
             (let s1 = log_event (HttpDo req) s in
              case Do w req of
                Inl err \<Rightarrow> (Some (Passed err), s1)
              | Inr resp \<Rightarrow>
                  deferred BodyClose
                    (slurp_status fo w od (fullFilename_of cfg od) resp s1))))"

subsection \<open>The worker loop \<open>slurper\<close>\<close>

datatype uiMsg = FileDone string | Bytes "64 word" | Msg string

datatype logline =
    Starting string
  | FailedDownloading string error

text \<open>
  \<open>Starting n\<close> is the line \<open>log.Printf("Starting %q", n)\<close> and \<open>FailedDownloading n err\<close>
  the line \<open>log.Printf("Failed downloading %q: %v", n, err)\<close>. A worker's state: the
  outside state of \<open>slurp\<close>, the log, the global \<open>errorCount\<close>, the messages sent on
  the order's \<open>ui\<close> channel, and whether the channel \<open>done\<close> is closed.
\<close>

record worker =
  io :: state
  logged :: "logline list"
  errorCount :: "32 word"
  ui :: "uiMsg list"
  done_closed :: bool

definition slurper_body :: "config \<Rightarrow> fileout \<Rightarrow> world \<Rightarrow> order \<Rightarrow> worker \<Rightarrow> worker" where
  \<comment> \<open>lines 155 to 166: the loop body, for one order\<close>
  "slurper_body cfg fo w od k =
     (let k1 = (if verbose cfg then k\<lparr>logged := logged k @ [Starting (path_Base (url od))]\<rparr> else k)
      in case slurp cfg fo w od (io k1) of
           (Some err, s) \<Rightarrow>
             k1\<lparr>io := s,
                logged := logged k1 @ [FailedDownloading (path_Base (url od)) err],
                errorCount := errorCount k1 + 1\<rparr>
         | (None, s) \<Rightarrow> k1\<lparr>io := s, ui := ui k1 @ [FileDone (url od)]\<rparr>)"

fun slurper_loop :: "config \<Rightarrow> fileout \<Rightarrow> (order \<times> world) list \<Rightarrow> worker \<Rightarrow> worker" where
  \<comment> \<open>\<open>for order := range orders\<close>: each order comes with the world it is served in\<close>
  "slurper_loop cfg fo [] k = k"
| "slurper_loop cfg fo ((od, w) # orders) k =
     slurper_loop cfg fo orders (slurper_body cfg fo w od k)"

definition slurper :: "config \<Rightarrow> fileout \<Rightarrow> (order \<times> world) list \<Rightarrow> worker \<Rightarrow> worker" where
  \<comment> \<open>\<open>defer close(done)\<close>\<close>
  "slurper cfg fo orders k = (slurper_loop cfg fo orders k)\<lparr>done_closed := True\<rparr>"

subsection \<open>\<open>main\<close>\<close>



subsection \<open>Observations on a trace\<close>

fun is_request :: "event \<Rightarrow> bool" where
  "is_request (HttpDo req) = True"
| "is_request e = False"

fun is_open :: "event \<Rightarrow> bool" where
  \<comment> \<open>a call of the sink's \<open>Create\<close> or \<open>Append\<close>\<close>
  "is_open (SinkCreate p n) = True"
| "is_open (SinkAppend p n) = True"
| "is_open e = False"


fun on_sink :: "event \<Rightarrow> bool" where
  \<comment> \<open>the calls that reach the final destination\<close>
  "on_sink (SinkCreate p n) = True"
| "on_sink (SinkAppend p n) = True"
| "on_sink (WriterWrite d p) = (d = SinkWriter)"
| "on_sink (WriterClose d) = (d = SinkWriter)"
| "on_sink e = False"

fun on_temp :: "event \<Rightarrow> bool" where
  \<comment> \<open>the calls on the temporary file\<close>
  "on_temp TempFile = True"
| "on_temp TempSeek = True"
| "on_temp TempRemove = True"
| "on_temp (WriterWrite d p) = (d = Tmpf)"
| "on_temp (WriterClose d) = (d = Tmpf)"
| "on_temp e = False"

fun bytes_read :: "event list \<Rightarrow> nat" where
  \<comment> \<open>the bytes that the reads of a trace delivered\<close>
  "bytes_read [] = 0"
| "bytes_read (BodyRead n # tr) = n + bytes_read tr"
| "bytes_read (e # tr) = bytes_read tr"

definition counter_after :: "64 word \<Rightarrow> event list \<Rightarrow> 64 word" where
  \<comment> \<open>the value of the byte counter when the events \<open>tr\<close> have happened to the value \<open>c\<close>:
      every \<open>BodyRead n\<close> is one \<open>atomic.AddUint64\<close> of \<open>n\<close>\<close>
  "counter_after c tr = c + of_nat (bytes_read tr)"

fun written_to :: "writer \<Rightarrow> event list \<Rightarrow> string" where
  \<comment> \<open>the bytes handed to a writer, in order\<close>
  "written_to d [] = []"
| "written_to d (WriterWrite d' p # tr) =
     (if d' = d then p @ written_to d tr else written_to d tr)"
| "written_to d (e # tr) = written_to d tr"

fun copy_events :: "writer \<Rightarrow> string list \<Rightarrow> event list" where
  \<comment> \<open>a complete \<open>io.Copy\<close> of a body through the \<open>readWrapper\<close>: each chunk is read and
      written at once, the last read finds the end\<close>
  "copy_events d [] = [BodyRead 0]"
| "copy_events d (p # chunks) =
     (if p = [] then BodyRead 0 # copy_events d chunks
      else BodyRead (length p) # WriterWrite d p # copy_events d chunks)"

definition write_events :: "writer \<Rightarrow> string list \<Rightarrow> event list" where
  \<comment> \<open>a complete \<open>io.Copy\<close> from the temporary file\<close>
  "write_events d chunks = map (WriterWrite d) (filter (\<lambda>p. p \<noteq> []) chunks)"

definition slurp_trace :: "config \<Rightarrow> fileout \<Rightarrow> world \<Rightarrow> order \<Rightarrow> state \<Rightarrow> event list" where
  \<comment> \<open>the events of one call of \<open>slurp\<close>\<close>
  "slurp_trace cfg fo w od s = drop (length (events s)) (events (snd (slurp cfg fo w od s)))"

definition counted :: "state \<Rightarrow> state \<Rightarrow> bool" where
  \<comment> \<open>from \<open>s\<close> to \<open>s'\<close> events were only added, and the counter moved by the reads among them\<close>
  "counted s s' =
     (prefix (events s) (events s') \<and>
      counter s' = counter_after (counter s) (drop (length (events s)) (events s')))"

fun slurp_results ::
  "config \<Rightarrow> fileout \<Rightarrow> (order \<times> world) list \<Rightarrow> state \<Rightarrow> (order \<times> error option) list"
where
  \<comment> \<open>what the successive calls of \<open>slurp\<close> return when a worker takes the orders one after
      the other, each call starting in the state the one before has left\<close>
  "slurp_results cfg fo [] s = []"
| "slurp_results cfg fo ((od, w) # orders) s =
     (od, fst (slurp cfg fo w od s)) # slurp_results cfg fo orders (snd (slurp cfg fo w od s))"

definition slurper_trace :: "config \<Rightarrow> fileout \<Rightarrow> (order \<times> world) list \<Rightarrow> worker \<Rightarrow> event list" where
  \<comment> \<open>the events of a whole run of a worker\<close>
  "slurper_trace cfg fo orders k =
     drop (length (events (io k))) (events (io (slurper cfg fo orders k)))"

definition parse_nat :: "string \<Rightarrow> nat" where
  \<comment> \<open>the number that a string of decimal digits denotes\<close>
  "parse_nat ds = foldl (\<lambda>a c. 10 * a + (of_char c - 48)) 0 ds"

subsection \<open>Example inputs\<close>

definition flags_default :: config where
  \<comment> \<open>the default values of the flags\<close>
  "flags_default =
     \<lparr>numWorkers = 1, dryRun = False, matching = [], verbose = False, out = ''.'',
      tarOut = False\<rparr>"

definition txt_pattern :: string where
  \<comment> \<open>the pattern \<open>.*\.txt$\<close>\<close>
  "txt_pattern = ''.*'' @ [CHR 0x5C] @ ''.txt$''"

definition re_txt :: regexp where
  \<comment> \<open>\<open>MatchString\<close> of \<open>.*\.txt$\<close> finds a match exactly in the strings that end in \<open>.txt\<close>\<close>
  "re_txt = \<lparr>Compiles = (\<lambda>p. p = txt_pattern), MatchString = (\<lambda>p s. HasSuffix s ''.txt'')\<rparr>"


definition two_pages_links :: "string \<Rightarrow> string list" where
  \<comment> \<open>the links of two listing pages\<close>
  "two_pages_links d =
     (if d = ''http://example/dir/'' then [''a.txt'', ''b.txt'', ''sub/c.txt'']
      else [''notes.txt'', ''x.png'', ''/top.txt''])"

definition two_pages :: "string \<Rightarrow> string + string list" where
  "two_pages d =
     (if d = ''http://example/dir/'' \<or> d = ''http://example/more'' then Inr (two_pages_links d)
      else Inl ''no such page'')"

definition quiet_world :: "int option \<Rightarrow> response \<Rightarrow> world" where
  \<comment> \<open>nothing fails: \<open>os.Stat\<close> answers \<open>st\<close>, the server answers \<open>resp\<close>\<close>
  "quiet_world st resp =
     \<lparr>NewRequest_err = (\<lambda>u. None), Stat = (\<lambda>p. st), Do = (\<lambda>req. Inr resp),
      TempFile_err = None, Create_err = (\<lambda>p n. None), Append_err = (\<lambda>p n. None),
      Write_err = (\<lambda>d h. None), Seek_err = None, TempRead_err = None\<rparr>"

definition reply :: "int \<Rightarrow> int \<Rightarrow> response" where
  \<comment> \<open>a response with status \<open>st\<close> and declared length \<open>cl\<close> whose body arrives in two reads\<close>
  "reply st cl = \<lparr>StatusCode = st, ContentLength = cl, Body = [''abc'', ''de''], BodyErr = None\<rparr>"

definition denied_world :: world where
  \<comment> \<open>the sink refuses to create the file\<close>
  "denied_world = (quiet_world None (reply 200 5))\<lparr>Create_err := (\<lambda>p n. Some ''permission denied'')\<rparr>"

definition direct_sink :: fileout where
  \<comment> \<open>a sink that writes plain files\<close>
  "direct_sink = \<lparr>HasPartial = True, FixedSizeOnly = False\<rparr>"

definition archive_sink :: fileout where
  \<comment> \<open>a sink that writes entries of an archive, the size of an entry coming first\<close>
  "archive_sink = \<lparr>HasPartial = False, FixedSizeOnly = True\<rparr>"

definition example_order :: order where
  "example_order = \<lparr>url = ''http://example/dir/a.txt''\<rparr>"

definition other_order :: order where
  \<comment> \<open>a file of the same name on another page\<close>
  "other_order = \<lparr>url = ''http://other/elsewhere/a.txt''\<rparr>"

definition fresh :: state where
  "fresh = \<lparr>events = [], counter = 0, tmpf = []\<rparr>"

definition idle :: worker where
  "idle = \<lparr>io = fresh, logged = [], errorCount = 0, ui = [], done_closed = False\<rparr>"

definition plain_request :: request where
  "plain_request = \<lparr>Method = ''GET'', URL = ''http://example/dir/a.txt'',
     Header = [(''User-Agent'', ''rslurp 0.1'')]\<rparr>"

definition range_request :: request where
  "range_request = \<lparr>Method = ''GET'', URL = ''http://example/dir/a.txt'',
     Header = [(''Range'', ''bytes=7-''), (''User-Agent'', ''rslurp 0.1'')]\<rparr>"

section \<open>Properties\<close>

subsection \<open>Listing pages\<close>

lemma Contains_slash: "Contains s ''/'' = (CHR ''/'' \<in> set s)"
  by (induction s) auto

lemma filter_links_eq:
  "filter_links fileRE d fs files =
     files @ map (\<lambda>fn. d @ fn) (filter (\<lambda>fn. CHR ''/'' \<notin> set fn \<and> fileRE fn) fs)"
  by (induction fs arbitrary: files) (simp_all add: Contains_slash)

lemma with_slash_eq:
  "with_slash d = (if d \<noteq> [] \<and> last d = CHR ''/'' then d else d @ ''/'')"
  by (cases d rule: rev_cases) (auto simp: with_slash_def HasSuffix_def)

lemma dirs_loop_eq:
  assumes "\<forall>d \<in> set ds. list d = Inr (fs d)"
  shows "dirs_loop fileRE list ds files =
           Files (files @ concat (map (\<lambda>d. map (\<lambda>fn. with_slash d @ fn)
                    (filter (\<lambda>fn. CHR ''/'' \<notin> set fn \<and> fileRE fn) (fs d))) ds))"
  using assms by (induction ds arbitrary: files) (simp_all add: filter_links_eq)

text \<open>
  Claim C6. Let every listing address \<open>d\<close> of the command line be fetched, \<open>fs d\<close> being
  the links of its page. The download addresses are then, page after page in the order
  of the arguments and link after link in the order of the page, the links that contain
  no \<open>/\<close> and that the filter expression matches; each address is the link's own \<open>d\<close>,
  with a slash added when \<open>d\<close> does not end in one, followed by the link. A link with
  a \<open>/\<close> or without a match gives no address.
\<close>

theorem downloadDirs_direct_children:
  assumes "Compiles re (matching cfg)" and "\<forall>d \<in> set ds. list d = Inr (fs d)"
  shows "downloadDirs cfg re list ds =
           Files (concat (map
             (\<lambda>d. map (\<lambda>fn. (if d \<noteq> [] \<and> last d = CHR ''/'' then d else d @ ''/'') @ fn)
                    (filter (\<lambda>fn. CHR ''/'' \<notin> set fn \<and> MatchString re (matching cfg) fn) (fs d)))
             ds))"
  using assms by (simp add: downloadDirs_def dirs_loop_eq [where fs = fs] with_slash_eq)

text \<open>
  The scenario of the specification: the page \<open>http://example/dir/\<close> links \<open>a.txt\<close>,
  \<open>b.txt\<close> and \<open>sub/c.txt\<close>, the filter is \<open>.*\.txt$\<close>. A second page, given without
  the final slash, links \<open>notes.txt\<close>, \<open>x.png\<close> and \<open>/top.txt\<close>.
\<close>

theorem downloadDirs_direct_children_witness:
  "downloadDirs (flags_default\<lparr>matching := txt_pattern\<rparr>) re_txt two_pages
     [''http://example/dir/'', ''http://example/more''] =
   Files [''http://example/dir/a.txt'', ''http://example/dir/b.txt'',
          ''http://example/more/notes.txt'']"
proof -
  have c: "Compiles re_txt (matching (flags_default\<lparr>matching := txt_pattern\<rparr>))"
    by (simp add: re_txt_def)
  have l: "\<forall>d \<in> set [''http://example/dir/'', ''http://example/more''].
             two_pages d = Inr (two_pages_links d)"
    by (simp add: two_pages_def two_pages_links_def)
  show ?thesis
    unfolding downloadDirs_direct_children
      [where list = two_pages and fs = two_pages_links, OF c l]
    by (simp add: re_txt_def HasSuffix_def two_pages_links_def)
qed

subsection \<open>The exit code\<close>



subsection \<open>\<open>io.Copy\<close>\<close>

text \<open>
  The effect of one read and of one write, the exact result of a copy in which no write
  fails, and a rule for the properties that every step of a copy keeps.
\<close>

lemma readWrapper_Read_state:
  "readWrapper_Read p s =
     \<lparr>events = events s @ [BodyRead (length p)],
      counter = counter s + of_nat (length p), tmpf = tmpf s\<rparr>"
  by (simp add: readWrapper_Read_def log_event_def)

lemma file_Read_state: "file_Read p s = s"
  by (simp add: file_Read_def)

lemma writer_Write_ok:
  "Write_err w d (events s) = None \<Longrightarrow>
   writer_Write w d p s =
     (None, \<lparr>events = events s @ [WriterWrite d p], counter = counter s,
             tmpf = (if d = Tmpf then tmpf s @ p else tmpf s)\<rparr>)"
  by (simp add: writer_Write_def log_event_def Let_def)

lemma writer_Write_failed:
  "Write_err w d (events s) = Some err \<Longrightarrow>
   writer_Write w d p s =
     (Some err, \<lparr>events = events s @ [WriterWrite d p], counter = counter s, tmpf = tmpf s\<rparr>)"
  by (simp add: writer_Write_def log_event_def Let_def)

lemma io_Copy_body_ok:
  assumes "\<And>h. Write_err w d h = None"
  shows "io_Copy readWrapper_Read (writer_Write w d) chunks fin n s =
     ((n + int (length (concat chunks)), fin),
      \<lparr>events = events s @ copy_events d chunks,
       counter = counter s + of_nat (length (concat chunks)),
       tmpf = (if d = Tmpf then tmpf s @ concat chunks else tmpf s)\<rparr>)"
proof (induction chunks arbitrary: n s)
  case Nil
  have "readWrapper_Read [] s = \<lparr>events = events s @ [BodyRead 0], counter = counter s, tmpf = tmpf s\<rparr>"
    by (simp add: readWrapper_Read_state)
  then show ?case by simp
next
  case (Cons p chunks)
  define s1 where "s1 = readWrapper_Read p s"
  define s2 where "s2 = snd (writer_Write w d p s1)"
  have s1: "events s1 = events s @ [BodyRead (length p)]"
    "counter s1 = counter s + of_nat (length p)" "tmpf s1 = tmpf s"
    by (simp_all add: s1_def readWrapper_Read_state)
  have wr: "writer_Write w d p s1 = (None, s2)"
    by (simp add: s2_def writer_Write_ok assms)
  have s2: "events s2 = events s @ [BodyRead (length p), WriterWrite d p]"
    "counter s2 = counter s + of_nat (length p)"
    "tmpf s2 = (if d = Tmpf then tmpf s @ p else tmpf s)"
    by (simp_all add: s2_def writer_Write_ok assms s1)
  have step: "io_Copy readWrapper_Read (writer_Write w d) (p # chunks) fin n s =
      (if p = [] then io_Copy readWrapper_Read (writer_Write w d) chunks fin n s1
       else io_Copy readWrapper_Read (writer_Write w d) chunks fin (n + int (length p)) s2)"
    by (simp add: s1_def [symmetric] wr)
  show ?case
    unfolding step
    using Cons.IH [of n s1] Cons.IH [of "n + int (length p)" s2]
    by (simp add: s1 s2 algebra_simps)
qed

lemma io_Copy_file_ok:
  assumes "\<And>h. Write_err w d h = None"
  shows "io_Copy file_Read (writer_Write w d) chunks fin n s =
     ((n + int (length (concat chunks)), fin),
      \<lparr>events = events s @ write_events d chunks,
       counter = counter s,
       tmpf = (if d = Tmpf then tmpf s @ concat chunks else tmpf s)\<rparr>)"
proof (induction chunks arbitrary: n s)
  case Nil
  have "file_Read [] s = s" by (simp add: file_Read_state)
  then show ?case by (simp add: write_events_def)
next
  case (Cons p chunks)
  define s2 where "s2 = snd (writer_Write w d p s)"
  have rd: "file_Read p s = s" by (simp add: file_Read_state)
  have wr: "writer_Write w d p s = (None, s2)"
    by (simp add: s2_def writer_Write_ok assms)
  have s2: "events s2 = events s @ [WriterWrite d p]" "counter s2 = counter s"
    "tmpf s2 = (if d = Tmpf then tmpf s @ p else tmpf s)"
    by (simp_all add: s2_def writer_Write_ok assms)
  have step: "io_Copy file_Read (writer_Write w d) (p # chunks) fin n s =
      (if p = [] then io_Copy file_Read (writer_Write w d) chunks fin n s
       else io_Copy file_Read (writer_Write w d) chunks fin (n + int (length p)) s2)"
    by (simp add: rd wr)
  show ?case
    unfolding step
    using Cons.IH [of n s] Cons.IH [of "n + int (length p)" s2]
    by (simp add: s2 write_events_def algebra_simps)
qed

lemma io_Copy_rel:
  assumes refl: "\<And>s. R s s" and trans: "\<And>a b c. R a b \<Longrightarrow> R b c \<Longrightarrow> R a c"
    and rd: "\<And>p s. R s (rd p s)" and wr: "\<And>p s. R s (snd (wr p s))"
  shows "R s (snd (io_Copy rd wr chunks fin n s))"
proof (induction chunks arbitrary: n s)
  case Nil
  show ?case by (simp add: rd)
next
  case (Cons p chunks)
  show ?case
  proof (cases "p = []")
    case True
    then show ?thesis
      using trans [OF rd [where p = p and s = s] Cons.IH [where n = n and s = "rd p s"]] by simp
  next
    case False
    obtain e s2 where w: "wr p (rd p s) = (e, s2)" by (cases "wr p (rd p s)")
    have r2: "R s s2"
      using trans [OF rd [where p = p and s = s] wr [where p = p and s = "rd p s"]] w by simp
    show ?thesis
    proof (cases e)
      case None
      then show ?thesis
        using False w trans [OF r2 Cons.IH [where n = "n + int (length p)" and s = s2]] by simp
    next
      case (Some err)
      then show ?thesis using False w r2 by simp
    qed
  qed
qed

lemma io_Copy_body_filter:
  assumes "\<And>n. \<not> P (BodyRead n)" and "\<And>p. \<not> P (WriterWrite d p)"
  shows "filter P (events (snd (io_Copy readWrapper_Read (writer_Write w d) chunks fin n s))) =
         filter P (events s)"
  using assms
  by (intro io_Copy_rel [where R = "\<lambda>s s'. filter P (events s') = filter P (events s)"])
     (auto simp: readWrapper_Read_def writer_Write_def log_event_def Let_def
        split: option.splits)

lemma io_Copy_file_filter:
  assumes "\<And>p. \<not> P (WriterWrite d p)"
  shows "filter P (events (snd (io_Copy file_Read (writer_Write w d) chunks fin n s))) =
         filter P (events s)"
  using assms
  by (intro io_Copy_rel [where R = "\<lambda>s s'. filter P (events s') = filter P (events s)"])
     (auto simp: file_Read_def writer_Write_def log_event_def Let_def
        split: option.splits)

lemma io_Copy_body_prefix:
  "prefix (events s) (events (snd (io_Copy readWrapper_Read (writer_Write w d) chunks fin n s)))"
  by (rule io_Copy_rel [where R = "\<lambda>s s'. prefix (events s) (events s')"])
     (auto simp: readWrapper_Read_def writer_Write_def log_event_def Let_def
        split: option.splits)

lemma io_Copy_file_prefix:
  "prefix (events s) (events (snd (io_Copy file_Read (writer_Write w d) chunks fin n s)))"
  by (rule io_Copy_rel [where R = "\<lambda>s s'. prefix (events s) (events s')"])
     (auto simp: file_Read_def writer_Write_def log_event_def Let_def
        split: option.splits)

lemma io_Copy_body_done:
  assumes "io_Copy readWrapper_Read (writer_Write w d) chunks fin n s = ((m, None), s')"
  shows "fin = None \<and> m = n + int (length (concat chunks)) \<and>
         events s' = events s @ copy_events d chunks \<and>
         counter s' = counter s + of_nat (length (concat chunks)) \<and>
         tmpf s' = (if d = Tmpf then tmpf s @ concat chunks else tmpf s)"
  using assms
proof (induction chunks arbitrary: n s)
  case Nil
  then show ?case by (auto simp: readWrapper_Read_def log_event_def)
next
  case (Cons p chunks)
  show ?case
  proof (cases "p = []")
    case True
    with Cons.prems have "io_Copy readWrapper_Read (writer_Write w d) chunks fin n (readWrapper_Read p s) = ((m, None), s')"
      by simp
    from Cons.IH [OF this] True show ?thesis
      by (simp add: readWrapper_Read_def log_event_def)
  next
    case False
    with Cons.prems obtain s2 where w: "writer_Write w d p (readWrapper_Read p s) = (None, s2)"
      and r: "io_Copy readWrapper_Read (writer_Write w d) chunks fin (n + int (length p)) s2 = ((m, None), s')"
      by (auto simp: Let_def split: prod.splits option.splits)
    from w have s2: "events s2 = events s @ [BodyRead (length p), WriterWrite d p]"
      "counter s2 = counter s + of_nat (length p)"
      "tmpf s2 = (if d = Tmpf then tmpf s @ p else tmpf s)"
      by (auto simp: writer_Write_def readWrapper_Read_def log_event_def Let_def split: option.splits)
    from Cons.IH [OF r] s2 False show ?thesis
      by (simp add: algebra_simps)
  qed
qed

lemma io_Copy_bound:
  assumes rd: "\<And>p s. f (rd p s) \<le> f s + length p" and wr: "\<And>p s. f (snd (wr p s)) \<le> f s"
  shows "f (snd (io_Copy rd wr chunks fin n s)) \<le> f s + length (concat chunks)"
proof (induction chunks arbitrary: n s)
  case Nil
  show ?case using rd [where p = "[]" and s = s] by simp
next
  case (Cons p chunks)
  show ?case
  proof (cases "p = []")
    case True
    then show ?thesis
      using rd [where p = p and s = s] Cons.IH [where n = n and s = "rd p s"] by simp
  next
    case False
    obtain e s2 where w: "wr p (rd p s) = (e, s2)" by (cases "wr p (rd p s)")
    have r2: "f s2 \<le> f s + length p"
      using rd [where p = p and s = s] wr [where p = p and s = "rd p s"] w by simp
    show ?thesis
    proof (cases e)
      case None
      then show ?thesis
        using False w r2 Cons.IH [where n = "n + int (length p)" and s = s2] by simp
    next
      case (Some err)
      then show ?thesis using False w r2 by simp
    qed
  qed
qed

lemma concat_chunks_of: "0 < n \<Longrightarrow> concat (chunks_of n xs) = xs"
  by (induction n xs rule: chunks_of.induct) (subst chunks_of.simps, simp)

lemma written_to_append: "written_to d (xs @ ys) = written_to d xs @ written_to d ys"
  by (induction d xs rule: written_to.induct) simp_all

lemma written_to_copy_events: "written_to d' (copy_events d chunks) = (if d' = d then concat chunks else [])"
  by (induction chunks) auto

lemma written_to_write_events: "written_to d' (write_events d chunks) = (if d' = d then concat chunks else [])"
  by (induction chunks) (auto simp: write_events_def)

lemma bytes_read_append: "bytes_read (xs @ ys) = bytes_read xs + bytes_read ys"
  by (induction xs rule: bytes_read.induct) simp_all

lemma bytes_read_copy_events: "bytes_read (copy_events d chunks) = length (concat chunks)"
  by (induction chunks) auto

lemma on_sink_copy_events_Tmpf: "filter on_sink (copy_events Tmpf chunks) = []"
  by (induction chunks) auto

lemma on_temp_copy_events_Sink: "filter on_temp (copy_events SinkWriter chunks) = []"
  by (induction chunks) auto

lemma is_open_copy_events: "filter is_open (copy_events d chunks) = []"
  by (induction chunks) auto

lemma is_open_write_events: "filter is_open (write_events d chunks) = []"
  by (induction chunks) (auto simp: write_events_def)

lemma is_open_on_sink: "filter is_open (filter on_sink xs) = filter is_open xs"
proof -
  have "is_open e \<Longrightarrow> on_sink e" for e by (cases e) simp_all
  then show ?thesis by (auto intro: filter_cong)
qed

subsection \<open>The trace of \<open>slurp\<close>\<close>

text \<open>A call of \<open>slurp\<close> only adds events; \<open>slurp_trace\<close> is what it adds.\<close>

lemma slurp_response:
  assumes "\<not> dryRun cfg" and "slurp_request cfg fo w od = Inr req" and "Do w req = Inr resp"
  shows "slurp cfg fo w od s =
           deferred BodyClose
             (slurp_status fo w od (fullFilename_of cfg od) resp (log_event (HttpDo req) s))"
  using assms by (simp add: slurp_def Let_def)

lemma prefix_log: "prefix tr (events s) \<Longrightarrow> prefix tr (events (log_event e s))"
  by (auto simp: log_event_def prefix_def)

lemma prefix_deferred: "prefix tr (events (snd r)) \<Longrightarrow> prefix tr (events (snd (deferred e r)))"
  by (simp add: deferred_def prefix_log)

lemma prefix_file_copy:
  "prefix tr (events s) \<Longrightarrow>
   prefix tr (events (snd (io_Copy file_Read (writer_Write w d) chunks fin n s)))"
  using io_Copy_file_prefix prefix_order.trans by blast

lemma prefix_body_copy:
  "prefix tr (events s) \<Longrightarrow>
   prefix tr (events (snd (io_Copy readWrapper_Read (writer_Write w d) chunks fin n s)))"
  using io_Copy_body_prefix prefix_order.trans by blast

lemma rewrite_output_prefix:
  "prefix tr (events s) \<Longrightarrow> prefix tr (events (snd (rewrite_output w fn n s)))"
  by (simp add: rewrite_output_def Let_def case_prod_beta prefix_log prefix_deferred
      prefix_file_copy split: option.splits)

lemma slurp_copy_prefix:
  "prefix tr (events s) \<Longrightarrow> prefix tr (events (snd (slurp_copy fo w fn resp d s)))"
  by (simp add: slurp_copy_def Let_def case_prod_beta prefix_log prefix_deferred
      prefix_body_copy rewrite_output_prefix split: option.splits)

lemma slurp_open_prefix:
  "prefix tr (events s) \<Longrightarrow> prefix tr (events (snd (slurp_open fo w fn resp partial s)))"
  by (simp add: slurp_open_def Let_def prefix_log prefix_deferred slurp_copy_prefix
      split: option.splits)

lemma slurp_status_prefix:
  "prefix tr (events s) \<Longrightarrow> prefix tr (events (snd (slurp_status fo w od fn resp s)))"
  by (simp add: slurp_status_def slurp_open_prefix)

lemma slurp_prefix: "prefix (events s) (events (snd (slurp cfg fo w od s)))"
  by (simp add: slurp_def Let_def prefix_log prefix_deferred slurp_status_prefix
      split: sum.splits)

lemma slurp_events: "events (snd (slurp cfg fo w od s)) = events s @ slurp_trace cfg fo w od s"
  using slurp_prefix [of s cfg fo w od] by (auto simp: slurp_trace_def prefix_def)

lemma slurp_trace_eq:
  "events (snd (slurp cfg fo w od s)) = events s @ tr \<Longrightarrow> slurp_trace cfg fo w od s = tr"
  by (simp add: slurp_trace_def)

lemma slurp_trace_filter:
  "filter P (events (snd (slurp cfg fo w od s))) = filter P (events s) @ xs \<Longrightarrow>
   filter P (slurp_trace cfg fo w od s) = xs"
  by (simp add: slurp_events)

lemma slurp_transfer:
  assumes "\<not> dryRun cfg" and "slurp_request cfg fo w od = Inr req" and "Do w req = Inr resp"
    and "StatusCode resp = 200 \<or> StatusCode resp = 206"
  shows "slurp cfg fo w od s =
           deferred BodyClose
             (slurp_open fo w (fullFilename_of cfg od) resp (StatusCode resp = 206)
                (log_event (HttpDo req) s))"
  using assms(4) by (auto simp: slurp_response [OF assms(1-3)] slurp_status_def)

subsection \<open>The two ways of a transfer\<close>

text \<open>
  What \<open>slurp\<close> does from the point where the response is accepted: the run in which
  nothing fails, and what holds of every run.
\<close>

lemma rewrite_output_ok:
  assumes "Seek_err w = None" and "Create_err w fn n = None"
    and "\<And>h. Write_err w SinkWriter h = None"
  shows "rewrite_output w fn n s =
     (map_option Passed (TempRead_err w),
      \<lparr>events = events s @ [TempSeek, SinkCreate fn n] @
                 write_events SinkWriter (chunks_of 32768 (tmpf s)) @ [WriterClose SinkWriter],
       counter = counter s, tmpf = tmpf s\<rparr>)"
  using assms(1,2)
  by (simp add: rewrite_output_def Let_def deferred_def log_event_def
      io_Copy_file_ok [of w SinkWriter, OF assms(3)])

lemma slurp_copy_direct_ok:
  assumes "\<not> (FixedSizeOnly fo \<and> ContentLength resp < 0)"
    and "\<And>h. Write_err w d h = None"
  shows "slurp_copy fo w fn resp d s =
     (map_option Passed (BodyErr resp),
      \<lparr>events = events s @ copy_events d (Body resp) @ [WriterClose d],
       counter = counter s + of_nat (length (concat (Body resp))),
       tmpf = (if d = Tmpf then tmpf s @ concat (Body resp) else tmpf s)\<rparr>)"
  using assms(1)
  by (auto simp: slurp_copy_def deferred_def log_event_def
      io_Copy_body_ok [of w d, OF assms(2)] split: option.splits)

lemma slurp_copy_buffered_ok:
  assumes "FixedSizeOnly fo \<and> ContentLength resp < 0"
    and "\<And>d h. Write_err w d h = None" and "BodyErr resp = None"
    and "Seek_err w = None" and "Create_err w fn (int (length (concat (Body resp)))) = None"
  shows "slurp_copy fo w fn resp Tmpf s =
     (map_option Passed (TempRead_err w),
      \<lparr>events = events s @ copy_events Tmpf (Body resp) @
                 [TempSeek, SinkCreate fn (int (length (concat (Body resp))))] @
                 write_events SinkWriter (chunks_of 32768 (tmpf s @ concat (Body resp))) @
                 [WriterClose SinkWriter, WriterClose Tmpf],
       counter = counter s + of_nat (length (concat (Body resp))),
       tmpf = tmpf s @ concat (Body resp)\<rparr>)"
  using assms(1,3)
  by (simp add: slurp_copy_def deferred_def log_event_def
      io_Copy_body_ok [of w Tmpf, OF assms(2)]
      rewrite_output_ok [OF assms(4) assms(5) assms(2)])

lemma rewrite_output_shape:
  "events (snd (rewrite_output w fn n s)) = events s @ [TempSeek] \<or>
   (\<exists>rest. events (snd (rewrite_output w fn n s)) = events s @ TempSeek # SinkCreate fn n # rest \<and>
           filter is_open rest = [])"
proof (cases "Seek_err w")
  case (Some err)
  then show ?thesis by (simp add: rewrite_output_def Let_def log_event_def)
next
  case None
  note seek = this
  define s2 where "s2 = log_event (SinkCreate fn n) (log_event TempSeek s)"
  have s2: "events s2 = events s @ [TempSeek, SinkCreate fn n]"
    by (simp add: s2_def log_event_def)
  show ?thesis
  proof (cases "Create_err w fn n")
    case (Some err)
    with seek have "events (snd (rewrite_output w fn n s)) = events s @ TempSeek # SinkCreate fn n # []"
      by (simp add: rewrite_output_def Let_def log_event_def)
    then show ?thesis by auto
  next
    case None
    define s3 where "s3 = snd (io_Copy file_Read (writer_Write w SinkWriter)
                                 (chunks_of 32768 (tmpf s2)) (TempRead_err w) 0 s2)"
    obtain xs where xs: "events s3 = events s2 @ xs"
      using io_Copy_file_prefix [of s2 w SinkWriter "chunks_of 32768 (tmpf s2)" "TempRead_err w" 0]
      unfolding s3_def prefix_def by blast
    have "filter is_open (events s3) = filter is_open (events s2)"
      unfolding s3_def by (rule io_Copy_file_filter) simp
    with xs have o: "filter is_open xs = []" by simp
    from seek None have "events (snd (rewrite_output w fn n s)) = events s3 @ [WriterClose SinkWriter]"
      by (simp add: rewrite_output_def Let_def deferred_def case_prod_beta s2_def s3_def
          log_event_def)
    with xs s2 o have "events (snd (rewrite_output w fn n s)) =
        events s @ TempSeek # SinkCreate fn n # (xs @ [WriterClose SinkWriter]) \<and>
        filter is_open (xs @ [WriterClose SinkWriter]) = []"
      by simp
    then show ?thesis by blast
  qed
qed

lemma slurp_copy_buffered_shape:
  assumes "FixedSizeOnly fo \<and> ContentLength resp < 0"
  shows "filter on_sink (events (snd (slurp_copy fo w fn resp Tmpf s))) = filter on_sink (events s) \<or>
   (\<exists>rest. events (snd (slurp_copy fo w fn resp Tmpf s)) =
             events s @ copy_events Tmpf (Body resp) @
             TempSeek # SinkCreate fn (int (length (concat (Body resp)))) # rest \<and>
           filter is_open rest = [])"
proof -
  obtain m e s1 where c: "io_Copy readWrapper_Read (writer_Write w Tmpf) (Body resp) (BodyErr resp) 0 s
      = ((m, e), s1)"
    by (metis surj_pair)
  show ?thesis
  proof (cases e)
    case (Some err)
    have "filter on_sink (events (snd (io_Copy readWrapper_Read (writer_Write w Tmpf) (Body resp)
             (BodyErr resp) 0 s))) = filter on_sink (events s)"
      by (rule io_Copy_body_filter) simp_all
    with c Some show ?thesis
      by (simp add: slurp_copy_def deferred_def log_event_def)
  next
    case None
    from io_Copy_body_done [OF c [unfolded None]]
    have m: "m = int (length (concat (Body resp)))"
      and s1: "events s1 = events s @ copy_events Tmpf (Body resp)"
      by simp_all
    have r: "events (snd (slurp_copy fo w fn resp Tmpf s)) =
             events (snd (rewrite_output w fn m s1)) @ [WriterClose Tmpf]"
      using assms c None by (simp add: slurp_copy_def deferred_def log_event_def)
    from rewrite_output_shape [of w fn m s1] show ?thesis
    proof
      assume "events (snd (rewrite_output w fn m s1)) = events s1 @ [TempSeek]"
      with r s1 show ?thesis by (simp add: on_sink_copy_events_Tmpf)
    next
      assume "\<exists>rest. events (snd (rewrite_output w fn m s1)) =
                events s1 @ TempSeek # SinkCreate fn m # rest \<and> filter is_open rest = []"
      then obtain rest where
        "events (snd (rewrite_output w fn m s1)) = events s1 @ TempSeek # SinkCreate fn m # rest"
        and "filter is_open rest = []" by blast
      with r s1 m have "events (snd (slurp_copy fo w fn resp Tmpf s)) =
             events s @ copy_events Tmpf (Body resp) @
             TempSeek # SinkCreate fn (int (length (concat (Body resp)))) # (rest @ [WriterClose Tmpf]) \<and>
           filter is_open (rest @ [WriterClose Tmpf]) = []"
        by simp
      then show ?thesis by blast
    qed
  qed
qed

lemma slurp_open_buffered_shape:
  assumes "FixedSizeOnly fo \<and> ContentLength resp < 0"
  shows "filter on_sink (events (snd (slurp_open fo w fn resp partial s))) = filter on_sink (events s) \<or>
   (\<exists>rest. events (snd (slurp_open fo w fn resp partial s)) =
             events s @ TempFile # copy_events Tmpf (Body resp) @
             TempSeek # SinkCreate fn (int (length (concat (Body resp)))) # rest \<and>
           filter is_open rest = [])"
proof (cases "TempFile_err w")
  case (Some err)
  with assms show ?thesis by (simp add: slurp_open_def Let_def log_event_def)
next
  case None
  define s1 where "s1 = (log_event TempFile s)\<lparr>tmpf := []\<rparr>"
  have s1: "events s1 = events s @ [TempFile]" by (simp add: s1_def log_event_def)
  have r: "events (snd (slurp_open fo w fn resp partial s)) =
           events (snd (slurp_copy fo w fn resp Tmpf s1)) @ [TempRemove]"
    using assms None by (simp add: slurp_open_def Let_def deferred_def log_event_def s1_def)
  from slurp_copy_buffered_shape [OF assms, of w fn s1] show ?thesis
  proof
    assume "filter on_sink (events (snd (slurp_copy fo w fn resp Tmpf s1))) = filter on_sink (events s1)"
    with r s1 show ?thesis by simp
  next
    assume "\<exists>rest. events (snd (slurp_copy fo w fn resp Tmpf s1)) =
             events s1 @ copy_events Tmpf (Body resp) @
             TempSeek # SinkCreate fn (int (length (concat (Body resp)))) # rest \<and>
           filter is_open rest = []"
    then obtain rest where "events (snd (slurp_copy fo w fn resp Tmpf s1)) =
             events s1 @ copy_events Tmpf (Body resp) @
             TempSeek # SinkCreate fn (int (length (concat (Body resp)))) # rest"
      and "filter is_open rest = []" by blast
    with r s1 have "events (snd (slurp_open fo w fn resp partial s)) =
             events s @ TempFile # copy_events Tmpf (Body resp) @
             TempSeek # SinkCreate fn (int (length (concat (Body resp)))) # (rest @ [TempRemove]) \<and>
           filter is_open (rest @ [TempRemove]) = []"
      by simp
    then show ?thesis by blast
  qed
qed

lemma slurp_copy_direct_filter:
  assumes "\<not> (FixedSizeOnly fo \<and> ContentLength resp < 0)"
    and "\<And>n. \<not> P (BodyRead n)" and "\<And>p. \<not> P (WriterWrite d p)"
  shows "filter P (events (snd (slurp_copy fo w fn resp d s))) =
         filter P (events s) @ filter P [WriterClose d]"
proof -
  have "filter P (events (snd (io_Copy readWrapper_Read (writer_Write w d) (Body resp)
             (BodyErr resp) 0 s))) = filter P (events s)"
    by (rule io_Copy_body_filter) (simp_all add: assms)
  moreover from assms(1) have nb: "(FixedSizeOnly fo \<and> ContentLength resp < 0) = False" by simp
  ultimately show ?thesis
    by (simp add: nb slurp_copy_def deferred_def log_event_def case_prod_beta split: option.splits)
qed

lemma slurp_open_direct_on_temp:
  assumes "\<not> (FixedSizeOnly fo \<and> ContentLength resp < 0)"
  shows "filter on_temp (events (snd (slurp_open fo w fn resp partial s))) = filter on_temp (events s)"
proof -
  from assms have nb: "(FixedSizeOnly fo \<and> ContentLength resp < 0) = False" by simp
  show ?thesis
    by (simp add: nb slurp_open_def Let_def log_event_def
        slurp_copy_direct_filter [OF assms, where P = on_temp and d = SinkWriter]
        split: option.splits)
qed

lemma slurp_open_direct_is_open:
  assumes "\<not> (FixedSizeOnly fo \<and> ContentLength resp < 0)"
  shows "filter is_open (events (snd (slurp_open fo w fn resp partial s))) =
         filter is_open (events s) @
         [if partial then SinkAppend fn (ContentLength resp) else SinkCreate fn (ContentLength resp)]"
proof -
  from assms have nb: "(FixedSizeOnly fo \<and> ContentLength resp < 0) = False" by simp
  show ?thesis
    by (simp add: nb slurp_open_def Let_def log_event_def
        slurp_copy_direct_filter [OF assms, where P = is_open and d = SinkWriter]
        split: option.splits)
qed

lemma slurp_open_direct_ok:
  assumes "\<not> (FixedSizeOnly fo \<and> ContentLength resp < 0)"
    and "(if partial then Append_err w else Create_err w) fn (ContentLength resp) = None"
    and "\<And>h. Write_err w SinkWriter h = None"
  shows "slurp_open fo w fn resp partial s =
     (map_option Passed (BodyErr resp),
      \<lparr>events = events s @
          (if partial then SinkAppend fn (ContentLength resp) else SinkCreate fn (ContentLength resp)) #
          copy_events SinkWriter (Body resp) @ [WriterClose SinkWriter],
       counter = counter s + of_nat (length (concat (Body resp))),
       tmpf = tmpf s\<rparr>)"
proof -
  from assms(1) have nb: "(FixedSizeOnly fo \<and> ContentLength resp < 0) = False" by simp
  from assms(2) show ?thesis
    by (simp add: nb slurp_open_def Let_def log_event_def
        slurp_copy_direct_ok [OF assms(1), of w SinkWriter, OF assms(3)] split: if_splits)
qed

lemma slurp_open_buffered_ok:
  assumes "FixedSizeOnly fo \<and> ContentLength resp < 0"
    and "TempFile_err w = None"
    and "\<And>d h. Write_err w d h = None" and "BodyErr resp = None"
    and "Seek_err w = None" and "Create_err w fn (int (length (concat (Body resp)))) = None"
  shows "slurp_open fo w fn resp partial s =
     (map_option Passed (TempRead_err w),
      \<lparr>events = events s @ TempFile # copy_events Tmpf (Body resp) @
                 [TempSeek, SinkCreate fn (int (length (concat (Body resp))))] @
                 write_events SinkWriter (chunks_of 32768 (concat (Body resp))) @
                 [WriterClose SinkWriter, WriterClose Tmpf, TempRemove],
       counter = counter s + of_nat (length (concat (Body resp))),
       tmpf = concat (Body resp)\<rparr>)"
  using assms(1,2)
  by (simp add: slurp_open_def Let_def log_event_def deferred_def
      slurp_copy_buffered_ok [OF assms(1) assms(3) assms(4) assms(5) assms(6)])

lemma slurp_open_buffered_is_open:
  assumes "FixedSizeOnly fo \<and> ContentLength resp < 0"
  shows "filter is_open (events (snd (slurp_open fo w fn resp partial s))) = filter is_open (events s) \<or>
         filter is_open (events (snd (slurp_open fo w fn resp partial s))) =
           filter is_open (events s) @ [SinkCreate fn (int (length (concat (Body resp))))]"
  using slurp_open_buffered_shape [OF assms, of w fn partial s]
proof
  assume "filter on_sink (events (snd (slurp_open fo w fn resp partial s))) = filter on_sink (events s)"
  then have "filter is_open (filter on_sink (events (snd (slurp_open fo w fn resp partial s)))) =
             filter is_open (filter on_sink (events s))" by simp
  then have "filter is_open (events (snd (slurp_open fo w fn resp partial s))) =
             filter is_open (events s)" by (simp only: is_open_on_sink)
  then show ?thesis by simp
next
  assume "\<exists>rest. events (snd (slurp_open fo w fn resp partial s)) =
             events s @ TempFile # copy_events Tmpf (Body resp) @
             TempSeek # SinkCreate fn (int (length (concat (Body resp)))) # rest \<and>
           filter is_open rest = []"
  then show ?thesis by (auto simp: is_open_copy_events)
qed

lemma slurp_dispatch:
  assumes "\<not> dryRun cfg" and "slurp_request cfg fo w od = Inr req" and "Do w req = Inr resp"
  shows
   "(StatusCode resp = 200 \<and> \<not> (FixedSizeOnly fo \<and> ContentLength resp < 0) \<longrightarrow>
       filter is_open (slurp_trace cfg fo w od s) =
         [SinkCreate (fullFilename_of cfg od) (ContentLength resp)]) \<and>
    (StatusCode resp = 206 \<and> \<not> (FixedSizeOnly fo \<and> ContentLength resp < 0) \<longrightarrow>
       filter is_open (slurp_trace cfg fo w od s) =
         [SinkAppend (fullFilename_of cfg od) (ContentLength resp)]) \<and>
    ((StatusCode resp = 200 \<or> StatusCode resp = 206) \<and>
     FixedSizeOnly fo \<and> ContentLength resp < 0 \<longrightarrow>
       filter is_open (slurp_trace cfg fo w od s) = [] \<or>
       filter is_open (slurp_trace cfg fo w od s) =
         [SinkCreate (fullFilename_of cfg od) (int (length (concat (Body resp))))]) \<and>
    (StatusCode resp = 416 \<longrightarrow>
       fst (slurp cfg fo w od s) = None \<and> slurp_trace cfg fo w od s = [HttpDo req, BodyClose]) \<and>
    (StatusCode resp \<noteq> 200 \<and> StatusCode resp \<noteq> 206 \<and> StatusCode resp \<noteq> 416 \<longrightarrow>
       fst (slurp cfg fo w od s) = Some (StatusNotOK (url od) (StatusCode resp)) \<and>
       slurp_trace cfg fo w od s = [HttpDo req, BodyClose])"
proof -
  let ?fn = "fullFilename_of cfg od"
  let ?s1 = "log_event (HttpDo req) s"
  let ?open = "slurp_open fo w ?fn resp (StatusCode resp = 206) ?s1"
  note r = slurp_response [OF assms, of s]
  have s1: "events ?s1 = events s @ [HttpDo req]" by (simp add: log_event_def)
  have ev: "events (snd (slurp cfg fo w od s)) = events (snd ?open) @ [BodyClose]"
    if "StatusCode resp = 200 \<or> StatusCode resp = 206"
    using that by (auto simp: r slurp_status_def deferred_def log_event_def)
  have direct: "filter is_open (slurp_trace cfg fo w od s) =
      [if StatusCode resp = 206 then SinkAppend ?fn (ContentLength resp)
       else SinkCreate ?fn (ContentLength resp)]"
    if st: "StatusCode resp = 200 \<or> StatusCode resp = 206"
      and d: "\<not> (FixedSizeOnly fo \<and> ContentLength resp < 0)"
    by (rule slurp_trace_filter)
       (simp add: ev [OF st] slurp_open_direct_is_open [OF d] s1)
  have buffered: "filter is_open (slurp_trace cfg fo w od s) = [] \<or>
       filter is_open (slurp_trace cfg fo w od s) =
         [SinkCreate ?fn (int (length (concat (Body resp))))]"
    if st: "StatusCode resp = 200 \<or> StatusCode resp = 206"
      and b: "FixedSizeOnly fo \<and> ContentLength resp < 0"
    using slurp_open_buffered_is_open [OF b, of w ?fn "StatusCode resp = 206" ?s1]
  proof
    assume "filter is_open (events (snd ?open)) = filter is_open (events ?s1)"
    then have "filter is_open (events (snd (slurp cfg fo w od s))) = filter is_open (events s) @ []"
      by (simp add: ev [OF st] s1)
    then show ?thesis by (simp add: slurp_trace_filter)
  next
    assume "filter is_open (events (snd ?open)) =
            filter is_open (events ?s1) @ [SinkCreate ?fn (int (length (concat (Body resp))))]"
    then have "filter is_open (events (snd (slurp cfg fo w od s))) =
               filter is_open (events s) @ [SinkCreate ?fn (int (length (concat (Body resp))))]"
      by (simp add: ev [OF st] s1)
    then show ?thesis by (simp add: slurp_trace_filter)
  qed
  have other: "fst (slurp cfg fo w od s) =
        (if StatusCode resp = 416 then None else Some (StatusNotOK (url od) (StatusCode resp))) \<and>
      slurp_trace cfg fo w od s = [HttpDo req, BodyClose]"
    if "StatusCode resp \<noteq> 200" and "StatusCode resp \<noteq> 206"
  proof -
    from that have "slurp cfg fo w od s =
        (if StatusCode resp = 416 then None else Some (StatusNotOK (url od) (StatusCode resp)),
         s\<lparr>events := events s @ [HttpDo req, BodyClose]\<rparr>)"
      by (simp add: r slurp_status_def deferred_def log_event_def)
    then show ?thesis by (simp add: slurp_trace_def)
  qed
  show ?thesis
    using direct buffered other by auto
qed


subsection \<open>The request\<close>

text \<open>\<open>%d\<close> prints different numbers differently, so a \<open>Range\<close> header tells the size.\<close>

lemma parse_digit: "d < 10 \<Longrightarrow> of_char (digit d) - 48 = d"
  by (simp add: digit_def)

lemma parse_fmt_nat: "parse_nat (fmt_nat n) = n"
proof (induction n rule: fmt_nat.induct)
  case (1 n)
  show ?case
  proof (cases "n < 10")
    case True
    then show ?thesis
      by (subst fmt_nat.simps) (simp add: parse_nat_def parse_digit)
  next
    case False
    with 1 have "parse_nat (fmt_nat (n div 10)) = n div 10" by simp
    with False show ?thesis
      by (subst fmt_nat.simps) (simp add: parse_nat_def parse_digit)
  qed
qed

lemma fmt_nat_inj: "fmt_nat m = fmt_nat n \<Longrightarrow> m = n"
  by (metis parse_fmt_nat)

lemma fmt_nat_no_minus: "CHR ''-'' \<notin> set (fmt_nat n)"
proof (induction n rule: fmt_nat.induct)
  case (1 n)
  have d: "digit k \<noteq> CHR ''-''" if "k < 10" for k
  proof
    assume "digit k = CHR ''-''"
    then have "of_char (digit k) = (45 :: nat)" by simp
    moreover have "of_char (digit k) = (48 + k :: nat)" using that by (simp add: digit_def)
    ultimately show False by simp
  qed
  show ?case
  proof (cases "n < 10")
    case True
    then show ?thesis using d [of n] by (subst fmt_nat.simps) auto
  next
    case False
    with 1 show ?thesis using d [of "n mod 10"] by (subst fmt_nat.simps) auto
  qed
qed

lemma fmt_d_inj: "fmt_d i = fmt_d j \<Longrightarrow> i = j"
proof -
  assume e: "fmt_d i = fmt_d j"
  have ne: "fmt_nat m \<noteq> CHR ''-'' # ds" "CHR ''-'' # ds \<noteq> fmt_nat m" for m ds
    using fmt_nat_no_minus [of m] by (metis list.set_intros(1))+
  show ?thesis
  proof (cases "i < 0")
    case True
    note i = this
    show ?thesis
    proof (cases "j < 0")
      case True
      with i e have "nat (- i) = nat (- j)" by (auto simp: fmt_d_def dest: fmt_nat_inj)
      with i True show ?thesis by simp
    next
      case False
      with i e ne show ?thesis by (auto simp: fmt_d_def)
    qed
  next
    case False
    note i = this
    show ?thesis
    proof (cases "j < 0")
      case True
      with i e ne show ?thesis by (auto simp: fmt_d_def)
    next
      case False
      with i e have "nat i = nat j" by (auto simp: fmt_d_def dest: fmt_nat_inj)
      with i False show ?thesis by simp
    qed
  qed
qed

lemma rewrite_output_is_request:
  "filter is_request (events (snd (rewrite_output w fn n s))) = filter is_request (events s)"
  by (simp add: rewrite_output_def Let_def deferred_def log_event_def case_prod_beta
      io_Copy_file_filter split: option.splits)

lemma slurp_copy_is_request:
  "filter is_request (events (snd (slurp_copy fo w fn resp d s))) = filter is_request (events s)"
  by (simp add: slurp_copy_def Let_def deferred_def log_event_def case_prod_beta
      io_Copy_body_filter rewrite_output_is_request split: option.splits)

lemma slurp_open_is_request:
  "filter is_request (events (snd (slurp_open fo w fn resp partial s))) = filter is_request (events s)"
  by (simp add: slurp_open_def Let_def deferred_def log_event_def slurp_copy_is_request
      split: option.splits)

lemma slurp_status_is_request:
  "filter is_request (events (snd (slurp_status fo w od fn resp s))) = filter is_request (events s)"
  by (simp add: slurp_status_def slurp_open_is_request)

lemma slurp_sends_request:
  assumes "\<not> dryRun cfg" and "slurp_request cfg fo w od = Inr req"
  shows "filter is_request (slurp_trace cfg fo w od s) = [HttpDo req]"
proof -
  have "filter is_request (events (snd (slurp cfg fo w od s))) =
        filter is_request (events s) @ [HttpDo req]"
    using assms
    by (simp add: slurp_def Let_def deferred_def log_event_def slurp_status_is_request
        split: sum.splits)
  then show ?thesis by (rule slurp_trace_filter)
qed

lemma Range_of_request:
  assumes "slurp_request cfg fo w od = Inr req"
  shows "Header_Get (Header req) ''Range'' =
           (if HasPartial fo
            then map_option (\<lambda>sz. ''bytes='' @ fmt_d sz @ ''-'') (Stat w (fullFilename_of cfg od))
            else None)"
  using assms
  by (auto simp: slurp_request_def newRequest_def resume_header_def Header_Get_def Header_Set_def
      split: option.splits)

subsection \<open>The byte counter\<close>

text \<open>
  Every step of \<open>slurp\<close> keeps the counter in step with the reads of the trace; a copy
  of a body reads no more than the body holds, and all of it when it succeeds.
\<close>

lemma counted_refl: "counted s s"
  by (simp add: counted_def counter_after_def)

lemma counted_trans: "counted a b \<Longrightarrow> counted b c \<Longrightarrow> counted a c"
  by (auto simp: counted_def prefix_def counter_after_def bytes_read_append)

lemma counted_log: "bytes_read [e] = 0 \<Longrightarrow> counted s s1 \<Longrightarrow> counted s (log_event e s1)"
  by (auto simp: counted_def prefix_def counter_after_def bytes_read_append log_event_def)

lemma counted_deferred:
  "bytes_read [e] = 0 \<Longrightarrow> counted s (snd r) \<Longrightarrow> counted s (snd (deferred e r))"
  by (simp add: deferred_def counted_log)

lemma counted_tmpf: "counted s s1 \<Longrightarrow> counted s (s1\<lparr>tmpf := x\<rparr>)"
  by (simp add: counted_def)

lemma counted_Read: "counted s (readWrapper_Read p s)"
  by (simp add: counted_def counter_after_def readWrapper_Read_def log_event_def)

lemma counted_Write: "counted s (snd (writer_Write w d p s))"
  by (auto simp: counted_def counter_after_def writer_Write_def log_event_def Let_def
      split: option.splits)

lemma counted_file_copy:
  "counted s0 s \<Longrightarrow> counted s0 (snd (io_Copy file_Read (writer_Write w d) chunks fin n s))"
proof -
  have "counted s (snd (io_Copy file_Read (writer_Write w d) chunks fin n s))"
    by (rule io_Copy_rel [where R = counted])
       (auto simp: counted_refl counted_Write file_Read_def intro: counted_trans)
  then show "counted s0 s \<Longrightarrow> ?thesis" by (rule counted_trans [rotated])
qed

lemma counted_body_copy:
  "counted s0 s \<Longrightarrow>
   counted s0 (snd (io_Copy readWrapper_Read (writer_Write w d) chunks fin n s))"
proof -
  have "counted s (snd (io_Copy readWrapper_Read (writer_Write w d) chunks fin n s))"
    by (rule io_Copy_rel [where R = counted])
       (auto simp: counted_refl counted_Write counted_Read intro: counted_trans)
  then show "counted s0 s \<Longrightarrow> ?thesis" by (rule counted_trans [rotated])
qed

lemma rewrite_output_counted:
  "counted s0 s \<Longrightarrow> counted s0 (snd (rewrite_output w fn n s))"
  by (simp add: rewrite_output_def Let_def case_prod_beta counted_log counted_deferred
      counted_file_copy split: option.splits)

lemma slurp_copy_counted:
  "counted s0 s \<Longrightarrow> counted s0 (snd (slurp_copy fo w fn resp d s))"
  by (simp add: slurp_copy_def Let_def case_prod_beta counted_log counted_deferred
      counted_body_copy rewrite_output_counted split: option.splits)

lemma slurp_open_counted:
  "counted s0 s \<Longrightarrow> counted s0 (snd (slurp_open fo w fn resp partial s))"
  by (simp add: slurp_open_def Let_def counted_log counted_deferred counted_tmpf
      slurp_copy_counted split: option.splits)

lemma slurp_status_counted:
  "counted s0 s \<Longrightarrow> counted s0 (snd (slurp_status fo w od fn resp s))"
  by (simp add: slurp_status_def slurp_open_counted)

lemma slurp_counted: "counted s (snd (slurp cfg fo w od s))"
  by (simp add: slurp_def Let_def counted_refl counted_log counted_deferred
      slurp_status_counted split: sum.splits)

lemma slurp_counter:
  "counter (snd (slurp cfg fo w od s)) = counter_after (counter s) (slurp_trace cfg fo w od s)"
  using slurp_counted [of s cfg fo w od] by (simp add: counted_def slurp_trace_def)

lemma bytes_read_log: "bytes_read [e] = 0 \<Longrightarrow> bytes_read (events (log_event e s)) = bytes_read (events s)"
  by (simp add: log_event_def bytes_read_append)

lemma bytes_read_Write:
  "bytes_read (events (snd (writer_Write w d p s))) = bytes_read (events s)"
  by (simp add: writer_Write_def log_event_def Let_def bytes_read_append split: option.splits)

lemma bytes_read_Read:
  "bytes_read (events (readWrapper_Read p s)) = bytes_read (events s) + length p"
  by (simp add: readWrapper_Read_def log_event_def bytes_read_append)

lemma bytes_read_file_copy:
  "bytes_read (events (snd (io_Copy file_Read (writer_Write w d) chunks fin n s))) =
   bytes_read (events s)"
  by (rule io_Copy_rel [where R = "\<lambda>s s'. bytes_read (events s') = bytes_read (events s)"])
     (simp_all add: bytes_read_Write file_Read_def)

lemma bytes_read_body_copy:
  "bytes_read (events (snd (io_Copy readWrapper_Read (writer_Write w d) chunks fin n s))) \<le>
   bytes_read (events s) + length (concat chunks)"
  by (rule io_Copy_bound [where f = "\<lambda>s. bytes_read (events s)"])
     (simp_all add: bytes_read_Write bytes_read_Read)

lemma bytes_read_rewrite_output:
  "bytes_read (events (snd (rewrite_output w fn n s))) = bytes_read (events s)"
  by (simp add: rewrite_output_def Let_def case_prod_beta deferred_def bytes_read_log
      bytes_read_file_copy split: option.splits)

lemma bytes_read_slurp_copy:
  "bytes_read (events (snd (slurp_copy fo w fn resp d s))) \<le>
   bytes_read (events s) + length (concat (Body resp))"
  by (simp add: slurp_copy_def Let_def case_prod_beta deferred_def bytes_read_log
      bytes_read_rewrite_output bytes_read_body_copy split: option.splits)

lemma bytes_read_slurp_open:
  "bytes_read (events (snd (slurp_open fo w fn resp partial s))) \<le>
   bytes_read (events s) + length (concat (Body resp))"
proof -
  have "bytes_read (events (snd (slurp_copy fo w fn resp d s1))) \<le>
        bytes_read (events s) + length (concat (Body resp))"
    if "bytes_read (events s1) = bytes_read (events s)" for d s1
    using bytes_read_slurp_copy [of fo w fn resp d s1] that by simp
  then show ?thesis
    by (simp add: slurp_open_def Let_def deferred_def bytes_read_log split: option.splits)
qed

lemma bytes_read_slurp:
  assumes "\<not> dryRun cfg" and "slurp_request cfg fo w od = Inr req" and "Do w req = Inr resp"
  shows "bytes_read (slurp_trace cfg fo w od s) \<le> length (concat (Body resp))"
proof -
  let ?s1 = "log_event (HttpDo req) s"
  have "bytes_read (events (snd (slurp_status fo w od fn resp ?s1))) \<le>
        bytes_read (events s) + length (concat (Body resp))" for fn
    using bytes_read_slurp_open [of fo w fn resp _ ?s1]
    by (simp add: slurp_status_def bytes_read_log)
  then have "bytes_read (events (snd (slurp cfg fo w od s))) \<le>
             bytes_read (events s) + length (concat (Body resp))"
    by (simp add: slurp_response [OF assms] deferred_def bytes_read_log)
  then show ?thesis by (simp add: slurp_events bytes_read_append)
qed

lemma slurp_copy_done:
  assumes "fst (slurp_copy fo w fn resp d s) = None"
  shows "bytes_read (events (snd (slurp_copy fo w fn resp d s))) =
         bytes_read (events s) + length (concat (Body resp))"
proof -
  obtain m e s1 where c:
    "io_Copy readWrapper_Read (writer_Write w d) (Body resp) (BodyErr resp) 0 s = ((m, e), s1)"
    by (metis surj_pair)
  from assms c have e: "e = None"
    by (cases e) (simp_all add: slurp_copy_def deferred_def)
  from io_Copy_body_done [OF c [unfolded e]]
  have s1: "bytes_read (events s1) = bytes_read (events s) + length (concat (Body resp))"
    by (simp add: bytes_read_append bytes_read_copy_events)
  show ?thesis
    using c e s1
    by (simp add: slurp_copy_def deferred_def bytes_read_log bytes_read_rewrite_output)
qed

lemma slurp_open_done:
  assumes "fst (slurp_open fo w fn resp partial s) = None"
  shows "bytes_read (events (snd (slurp_open fo w fn resp partial s))) =
         bytes_read (events s) + length (concat (Body resp))"
proof -
  have "bytes_read (events (snd (slurp_copy fo w fn resp d s1))) =
        bytes_read (events s) + length (concat (Body resp))"
    if "bytes_read (events s1) = bytes_read (events s)"
      and "fst (slurp_copy fo w fn resp d s1) = None" for d s1
    using slurp_copy_done [OF that(2)] that(1) by simp
  with assms show ?thesis
    by (auto simp: slurp_open_def Let_def deferred_def bytes_read_log
        split: option.splits if_splits)
qed

lemma slurp_done:
  assumes "\<not> dryRun cfg" and "slurp_request cfg fo w od = Inr req" and "Do w req = Inr resp"
    and "StatusCode resp = 200 \<or> StatusCode resp = 206"
    and "fst (slurp cfg fo w od s) = None"
  shows "bytes_read (slurp_trace cfg fo w od s) = length (concat (Body resp))"
proof -
  let ?s1 = "log_event (HttpDo req) s"
  let ?open = "slurp_open fo w (fullFilename_of cfg od) resp (StatusCode resp = 206) ?s1"
  note t = slurp_transfer [OF assms(1-4), of s]
  from assms(5) have "fst ?open = None" by (simp add: t deferred_def)
  from slurp_open_done [OF this]
  have "bytes_read (events (snd (slurp cfg fo w od s))) =
        bytes_read (events s) + length (concat (Body resp))"
    by (simp add: t deferred_def bytes_read_log)
  then show ?thesis by (simp add: slurp_events bytes_read_append)
qed

lemma bytes_read_take: "bytes_read (take i tr) \<le> bytes_read tr"
proof -
  have "bytes_read tr = bytes_read (take i tr) + bytes_read (drop i tr)"
    using bytes_read_append [of "take i tr" "drop i tr"] by simp
  then show ?thesis by simp
qed

lemma bytes_read_take_mono: "i \<le> j \<Longrightarrow> bytes_read (take i tr) \<le> bytes_read (take j tr)"
proof -
  assume "i \<le> j"
  then have "take i tr = take i (take j tr)" by (simp add: min_def)
  then show ?thesis using bytes_read_take [of i "take j tr"] by simp
qed

lemma counter_after_mono:
  assumes "a \<le> b" and "unat c + b < 2 ^ 64"
  shows "c + (of_nat a :: 64 word) \<le> c + of_nat b"
proof -
  have a: "unat (c + (of_nat a :: 64 word)) = unat c + a"
    using assms by (simp add: unat_word_ariths unat_of_nat)
  have b: "unat (c + (of_nat b :: 64 word)) = unat c + b"
    using assms by (simp add: unat_word_ariths unat_of_nat)
  show ?thesis using assms(1) by (simp add: word_le_nat_alt a b)
qed

lemma counter_after_take_mono:
  assumes "i \<le> j" and "unat c + bytes_read tr < 2 ^ 64"
  shows "counter_after c (take i tr) \<le> counter_after c (take j tr)"
  unfolding counter_after_def
  using bytes_read_take_mono [OF assms(1), of tr] bytes_read_take [of j tr] assms(2)
  by (intro counter_after_mono) simp_all

subsection \<open>The worker loop\<close>

text \<open>What one order adds to the state of a worker, and what a whole queue adds.\<close>

lemma slurper_body_io: "io (slurper_body cfg fo w od k) = snd (slurp cfg fo w od (io k))"
  by (simp add: slurper_body_def Let_def split: prod.splits option.splits)

lemma slurper_body_ui:
  "ui (slurper_body cfg fo w od k) =
     ui k @ (if fst (slurp cfg fo w od (io k)) = None then [FileDone (url od)] else [])"
  by (simp add: slurper_body_def Let_def split: prod.splits option.splits)

lemma slurper_body_logged:
  "logged (slurper_body cfg fo w od k) =
     logged k @ (if verbose cfg then [Starting (path_Base (url od))] else []) @
     (case fst (slurp cfg fo w od (io k)) of
        None \<Rightarrow> []
      | Some err \<Rightarrow> [FailedDownloading (path_Base (url od)) err])"
  by (simp add: slurper_body_def Let_def split: prod.splits option.splits)

lemma slurper_body_errorCount:
  "errorCount (slurper_body cfg fo w od k) =
     errorCount k + (if fst (slurp cfg fo w od (io k)) = None then 0 else 1)"
  by (simp add: slurper_body_def Let_def split: prod.splits option.splits)

lemma slurper_loop_ui:
  "ui (slurper_loop cfg fo orders k) =
     ui k @ map (\<lambda>(od, r). FileDone (url od))
              (filter (\<lambda>(od, r). r = None) (slurp_results cfg fo orders (io k)))"
proof (induction orders arbitrary: k)
  case Nil
  show ?case by simp
next
  case (Cons a orders)
  obtain od w where a: "a = (od, w)" by (cases a)
  show ?case
    unfolding a by (simp add: Cons.IH slurper_body_ui slurper_body_io)
qed

lemma slurper_loop_logged:
  "logged (slurper_loop cfg fo orders k) =
     logged k @ concat (map
       (\<lambda>(od, r). (if verbose cfg then [Starting (path_Base (url od))] else []) @
                  (case r of None \<Rightarrow> [] | Some err \<Rightarrow> [FailedDownloading (path_Base (url od)) err]))
       (slurp_results cfg fo orders (io k)))"
proof (induction orders arbitrary: k)
  case Nil
  show ?case by simp
next
  case (Cons a orders)
  obtain od w where a: "a = (od, w)" by (cases a)
  show ?case
    unfolding a by (simp add: Cons.IH slurper_body_logged slurper_body_io)
qed

lemma slurper_loop_errorCount:
  "errorCount (slurper_loop cfg fo orders k) =
     errorCount k +
     of_nat (length (filter (\<lambda>(od, r). r \<noteq> None) (slurp_results cfg fo orders (io k))))"
proof (induction orders arbitrary: k)
  case Nil
  show ?case by simp
next
  case (Cons a orders)
  obtain od w where a: "a = (od, w)" by (cases a)
  show ?case
    unfolding a by (simp add: Cons.IH slurper_body_errorCount slurper_body_io)
qed

lemma slurp_results_orders: "map fst (slurp_results cfg fo orders s) = map fst orders"
proof (induction orders arbitrary: s)
  case Nil
  show ?case by simp
next
  case (Cons a orders)
  obtain od w where a: "a = (od, w)" by (cases a)
  show ?case unfolding a by (simp add: Cons.IH)
qed

lemma slurp_results_dryRun:
  "dryRun cfg \<Longrightarrow> slurp_results cfg fo orders s = map (\<lambda>(od, w). (od, None)) orders"
proof (induction orders arbitrary: s)
  case Nil
  show ?case by simp
next
  case (Cons a orders)
  obtain od w where a: "a = (od, w)" by (cases a)
  from Cons.prems show ?case unfolding a by (simp add: Cons.IH slurp_def)
qed

lemma slurper_loop_counted: "counted (io k) (io (slurper_loop cfg fo orders k))"
proof (induction orders arbitrary: k)
  case Nil
  show ?case by (simp add: counted_refl)
next
  case (Cons a orders)
  obtain od w where a: "a = (od, w)" by (cases a)
  have "counted (io k) (io (slurper_body cfg fo w od k))"
    by (simp add: slurper_body_io slurp_counted)
  from counted_trans [OF this Cons.IH [of "slurper_body cfg fo w od k"]]
  show ?case unfolding a by simp
qed

lemma slurper_counter:
  "counter (io (slurper cfg fo orders k)) =
     counter_after (counter (io k)) (slurper_trace cfg fo orders k)"
  using slurper_loop_counted [of k cfg fo orders]
  by (simp add: counted_def slurper_trace_def slurper_def)

lemma slurper_logged:
  "logged (slurper cfg fo orders k) =
     logged k @ concat (map
       (\<lambda>(od, r). (if verbose cfg then [Starting (path_Base (url od))] else []) @
                  (case r of None \<Rightarrow> [] | Some err \<Rightarrow> [FailedDownloading (path_Base (url od)) err]))
       (slurp_results cfg fo orders (io k)))"
  by (simp add: slurper_def slurper_loop_logged)

lemma slurper_errorCount:
  "errorCount (slurper cfg fo orders k) =
     errorCount k +
     of_nat (length (filter (\<lambda>(od, r). r \<noteq> None) (slurp_results cfg fo orders (io k))))"
  by (simp add: slurper_def slurper_loop_errorCount)

lemma slurper_ui:
  "ui (slurper cfg fo orders k) =
     ui k @ map (\<lambda>(od, r). FileDone (url od))
              (filter (\<lambda>(od, r). r = None) (slurp_results cfg fo orders (io k)))"
  by (simp add: slurper_def slurper_loop_ui)

lemma slurper_done_closed: "done_closed (slurper cfg fo orders k)"
  by (simp add: slurper_def)

subsection \<open>The example runs\<close>

lemma example_fullFilename: "fullFilename_of flags_default example_order = ''a.txt''"
  by code_simp


lemma example_Base: "path_Base (url example_order) = ''a.txt''"
  "path_Base (url other_order) = ''a.txt''"
  by code_simp+

lemma fmt_d_7: "fmt_d 7 = ''7''"
  by code_simp

lemma example_request_archive:
  "slurp_request flags_default archive_sink (quiet_world st resp) example_order = Inr plain_request"
  by (simp add: slurp_request_def newRequest_def quiet_world_def example_order_def
      resume_header_def archive_sink_def plain_request_def Header_Set_def)

lemma example_request_direct:
  "slurp_request flags_default direct_sink (quiet_world None resp) example_order = Inr plain_request"
  by (simp add: slurp_request_def newRequest_def quiet_world_def example_order_def
      resume_header_def direct_sink_def plain_request_def Header_Set_def)

lemma example_request_range:
  "slurp_request flags_default direct_sink (quiet_world (Some 7) resp) example_order =
     Inr range_request"
  by (simp add: slurp_request_def newRequest_def quiet_world_def example_order_def
      resume_header_def direct_sink_def range_request_def Header_Set_def fmt_d_7)


lemma not_dry: "\<not> dryRun flags_default"
  by (simp add: flags_default_def)

lemma quiet_Do: "Do (quiet_world st resp) req = Inr resp"
  by (simp add: quiet_world_def)

lemma quiet_direct:
  assumes "st = 200 \<or> st = 206"
  shows "slurp flags_default direct_sink (quiet_world None (reply st 5)) example_order s =
     (None,
      \<lparr>events = events s @
         [HttpDo plain_request,
          if st = 206 then SinkAppend ''a.txt'' 5 else SinkCreate ''a.txt'' 5,
          BodyRead 3, WriterWrite SinkWriter ''abc'', BodyRead 2, WriterWrite SinkWriter ''de'',
          BodyRead 0, WriterClose SinkWriter, BodyClose],
       counter = counter s + 5, tmpf = tmpf s\<rparr>)"
proof -
  have st: "StatusCode (reply st 5) = 200 \<or> StatusCode (reply st 5) = 206"
    using assms by (simp add: reply_def)
  have d: "\<not> (FixedSizeOnly direct_sink \<and> ContentLength (reply st 5) < 0)"
    by (simp add: direct_sink_def)
  have op: "(if StatusCode (reply st 5) = 206 then Append_err (quiet_world None (reply st 5))
             else Create_err (quiet_world None (reply st 5))) ''a.txt'' (ContentLength (reply st 5)) = None"
    by (simp add: quiet_world_def)
  have wr: "\<And>h. Write_err (quiet_world None (reply st 5)) SinkWriter h = None"
    by (simp add: quiet_world_def)
  note t = slurp_transfer [OF not_dry example_request_direct quiet_Do st, where s = s,
      unfolded example_fullFilename]
  note o = slurp_open_direct_ok [OF d op wr, of "log_event (HttpDo plain_request) s"]
  show ?thesis
    unfolding t o by (simp add: deferred_def log_event_def reply_def)
qed

lemma quiet_buffered:
  assumes "st = 200 \<or> st = 206"
  shows "slurp flags_default archive_sink (quiet_world None (reply st (-1))) example_order s =
     (None,
      \<lparr>events = events s @
         [HttpDo plain_request, TempFile, BodyRead 3, WriterWrite Tmpf ''abc'', BodyRead 2,
          WriterWrite Tmpf ''de'', BodyRead 0, TempSeek, SinkCreate ''a.txt'' 5,
          WriterWrite SinkWriter ''abcde'', WriterClose SinkWriter, WriterClose Tmpf,
          TempRemove, BodyClose],
       counter = counter s + 5, tmpf = ''abcde''\<rparr>)"
proof -
  let ?w = "quiet_world None (reply st (-1))"
  have st: "StatusCode (reply st (-1)) = 200 \<or> StatusCode (reply st (-1)) = 206"
    using assms by (simp add: reply_def)
  have b: "FixedSizeOnly archive_sink \<and> ContentLength (reply st (-1)) < 0"
    by (simp add: archive_sink_def reply_def)
  have ok: "TempFile_err ?w = None" "\<And>d h. Write_err ?w d h = None"
    "BodyErr (reply st (-1)) = None" "Seek_err ?w = None"
    "Create_err ?w ''a.txt'' (int (length (concat (Body (reply st (-1)))))) = None"
    by (simp_all add: quiet_world_def reply_def)
  note t = slurp_transfer [OF not_dry example_request_archive quiet_Do st, where s = s,
      unfolded example_fullFilename]
  note o = slurp_open_buffered_ok [OF b ok, of "StatusCode (reply st (-1)) = 206"
      "log_event (HttpDo plain_request) s"]
  show ?thesis
    unfolding t o
    by (simp add: quiet_world_def deferred_def log_event_def write_events_def chunks_of.simps
        reply_def)
qed

lemma slurp_denied:
  "slurp flags_default direct_sink denied_world od s =
     (Some (Passed ''permission denied''),
      s\<lparr>events := events s @
          [HttpDo \<lparr>Method = ''GET'', URL = url od, Header = [(''User-Agent'', ''rslurp 0.1'')]\<rparr>,
           SinkCreate (fullFilename_of flags_default od) 5, BodyClose]\<rparr>)"
  by (simp add: slurp_def slurp_request_def newRequest_def resume_header_def direct_sink_def
      denied_world_def quiet_world_def flags_default_def Header_Set_def Let_def slurp_status_def
      slurp_open_def reply_def deferred_def log_event_def)

subsection \<open>The status of the response\<close>

text \<open>
  Claim C1, with the buffered case set apart. Let \<open>slurp\<close> have received a response. With
  status 200 and a body that is streamed, the sink is opened once, by \<open>Create\<close> with the
  declared length; with status 206 and a body that is streamed, once, by \<open>Append\<close>. With
  status 200 or 206 and a body that is buffered (the sink wants the size first, the response
  declares none), the sink is opened by \<open>Create\<close> with the measured length of the body, or
  not at all when a step before it fails. With status 416 \<open>slurp\<close> returns nil and has only
  sent the request and closed the body. With any other status it returns the error
  \<open>status not OK\<close> for the address and the status, and has done no more than that either.
\<close>

theorem slurp_status_dispatch:
  assumes "\<not> dryRun cfg" and "slurp_request cfg fo w od = Inr req" and "Do w req = Inr resp"
  shows
   "(StatusCode resp = 200 \<and> \<not> (FixedSizeOnly fo \<and> ContentLength resp < 0) \<longrightarrow>
       filter is_open (slurp_trace cfg fo w od s) =
         [SinkCreate (fullFilename_of cfg od) (ContentLength resp)]) \<and>
    (StatusCode resp = 206 \<and> \<not> (FixedSizeOnly fo \<and> ContentLength resp < 0) \<longrightarrow>
       filter is_open (slurp_trace cfg fo w od s) =
         [SinkAppend (fullFilename_of cfg od) (ContentLength resp)]) \<and>
    ((StatusCode resp = 200 \<or> StatusCode resp = 206) \<and>
     FixedSizeOnly fo \<and> ContentLength resp < 0 \<longrightarrow>
       filter is_open (slurp_trace cfg fo w od s) = [] \<or>
       filter is_open (slurp_trace cfg fo w od s) =
         [SinkCreate (fullFilename_of cfg od) (int (length (concat (Body resp))))]) \<and>
    (StatusCode resp = 416 \<longrightarrow>
       fst (slurp cfg fo w od s) = None \<and> slurp_trace cfg fo w od s = [HttpDo req, BodyClose]) \<and>
    (StatusCode resp \<noteq> 200 \<and> StatusCode resp \<noteq> 206 \<and> StatusCode resp \<noteq> 416 \<longrightarrow>
       fst (slurp cfg fo w od s) = Some (StatusNotOK (url od) (StatusCode resp)) \<and>
       slurp_trace cfg fo w od s = [HttpDo req, BodyClose])"
  by (rule slurp_dispatch [OF assms])

text \<open>The four cases on the example order, the sink writing plain files.\<close>

theorem slurp_status_dispatch_witness:
  "filter is_open (slurp_trace flags_default direct_sink (quiet_world None (reply 200 5))
                     example_order fresh) = [SinkCreate ''a.txt'' 5] \<and>
   filter is_open (slurp_trace flags_default direct_sink (quiet_world None (reply 206 5))
                     example_order fresh) = [SinkAppend ''a.txt'' 5] \<and>
   fst (slurp flags_default direct_sink (quiet_world None (reply 416 5)) example_order fresh) = None \<and>
   slurp_trace flags_default direct_sink (quiet_world None (reply 416 5)) example_order fresh =
     [HttpDo plain_request, BodyClose] \<and>
   fst (slurp flags_default direct_sink (quiet_world None (reply 404 5)) example_order fresh) =
     Some (StatusNotOK ''http://example/dir/a.txt'' 404) \<and>
   slurp_trace flags_default direct_sink (quiet_world None (reply 404 5)) example_order fresh =
     [HttpDo plain_request, BodyClose]"
proof -
  have r: "slurp_request flags_default direct_sink (quiet_world None (reply st 5)) example_order =
           Inr plain_request" for st
    by (rule example_request_direct)
  have d: "Do (quiet_world None (reply st 5)) plain_request = Inr (reply st 5)" for st
    by (rule quiet_Do)
  have u: "url example_order = ''http://example/dir/a.txt''"
    by (simp add: example_order_def)
  show ?thesis
    using slurp_status_dispatch [OF not_dry r [of 200] d [of 200], where s = fresh]
      slurp_status_dispatch [OF not_dry r [of 206] d [of 206], where s = fresh]
      slurp_status_dispatch [OF not_dry r [of 416] d [of 416], where s = fresh]
      slurp_status_dispatch [OF not_dry r [of 404] d [of 404], where s = fresh]
    by (simp add: reply_def direct_sink_def example_fullFilename u)
qed

text \<open>
  Without the restriction to streamed bodies the case of status 206 fails. When the sink
  wants the size first and the response declares none, the body goes to a temporary file
  whatever the status is, and the destination is then opened with \<open>Create\<close>: the run below
  is answered with 206 and has one \<open>Create\<close> and no \<open>Append\<close>.
\<close>

theorem slurp_206_buffered_counterexample:
  "StatusCode (reply 206 (-1)) = 206 \<and>
   filter is_open (slurp_trace flags_default archive_sink (quiet_world None (reply 206 (-1)))
                     example_order fresh) = [SinkCreate ''a.txt'' 5]"
proof -
  have "slurp_trace flags_default archive_sink (quiet_world None (reply 206 (-1)))
          example_order fresh =
        [HttpDo plain_request, TempFile, BodyRead 3, WriterWrite Tmpf ''abc'', BodyRead 2,
         WriterWrite Tmpf ''de'', BodyRead 0, TempSeek, SinkCreate ''a.txt'' 5,
         WriterWrite SinkWriter ''abcde'', WriterClose SinkWriter, WriterClose Tmpf,
         TempRemove, BodyClose]"
    by (rule slurp_trace_eq) (simp add: quiet_buffered)
  then show ?thesis by (simp add: reply_def)
qed

subsection \<open>The \<open>Range\<close> header\<close>

text \<open>
  Claim C2. When \<open>slurp\<close> gets as far as sending, it sends one request, and that request
  carries the header \<open>Range: bytes=S-\<close> if and only if the sink supports partial writes and
  \<open>os.Stat\<close> finds a file of size \<open>S\<close> at the destination path; it carries no \<open>Range\<close>
  header if and only if the sink does not support partial writes or there is no such file.
\<close>

theorem slurp_range_header:
  assumes "\<not> dryRun cfg" and "slurp_request cfg fo w od = Inr req"
  shows "filter is_request (slurp_trace cfg fo w od s) = [HttpDo req] \<and>
         (\<forall>S. (Header_Get (Header req) ''Range'' = Some (''bytes='' @ fmt_d S @ ''-'')) =
              (HasPartial fo \<and> Stat w (fullFilename_of cfg od) = Some S)) \<and>
         ((Header_Get (Header req) ''Range'' = None) =
              (\<not> HasPartial fo \<or> Stat w (fullFilename_of cfg od) = None))"
  using slurp_sends_request [OF assms] Range_of_request [OF assms(2)]
  by (auto dest: fmt_d_inj)

text \<open>
  A file of 7 bytes and a sink for plain files; no file; a file, but a sink without
  partial writes.
\<close>

theorem slurp_range_header_witness:
  "filter is_request (slurp_trace flags_default direct_sink (quiet_world (Some 7) (reply 206 5))
                        example_order fresh) = [HttpDo range_request] \<and>
   HasPartial direct_sink \<and>
   Stat (quiet_world (Some 7) (reply 206 5)) (fullFilename_of flags_default example_order) = Some 7 \<and>
   Header_Get (Header range_request) ''Range'' = Some ''bytes=7-'' \<and>
   filter is_request (slurp_trace flags_default direct_sink (quiet_world None (reply 200 5))
                        example_order fresh) = [HttpDo plain_request] \<and>
   Stat (quiet_world None (reply 200 5)) (fullFilename_of flags_default example_order) = None \<and>
   Header_Get (Header plain_request) ''Range'' = None \<and>
   filter is_request (slurp_trace flags_default archive_sink (quiet_world (Some 7) (reply 200 5))
                        example_order fresh) = [HttpDo plain_request]"
  using slurp_range_header [OF not_dry example_request_range [of "reply 206 5"], where s = fresh]
    slurp_range_header [OF not_dry example_request_direct [of "reply 200 5"], where s = fresh]
    slurp_range_header [OF not_dry example_request_archive [of "Some 7" "reply 200 5"],
      where s = fresh]
  by (simp add: direct_sink_def quiet_world_def range_request_def plain_request_def Header_Get_def)

subsection \<open>Buffering a body of unknown length\<close>

text \<open>
  Claim C3. Let the response have status 200 or 206. When the sink wants the size first
  and the response declares no length, either nothing reaches the destination, or the
  trace starts with the request, the creation of the temporary file and the complete copy
  of the body into it, followed by the seek and by \<open>Create\<close> with the number of bytes of
  the body, and the destination is opened only that once; when nothing fails \<open>slurp\<close>
  returns nil, the trace is exactly that of the two passes, and the destination has
  received the body. In every other case the temporary file is not touched, and when the
  open and the writes succeed the body is read and written chunk by chunk into the writer
  that the sink has handed out.
\<close>

theorem slurp_buffers_unknown_size:
  assumes "\<not> dryRun cfg" and "slurp_request cfg fo w od = Inr req" and "Do w req = Inr resp"
    and "StatusCode resp = 200 \<or> StatusCode resp = 206"
  shows
   "(FixedSizeOnly fo \<and> ContentLength resp < 0 \<longrightarrow>
       (filter on_sink (slurp_trace cfg fo w od s) = [] \<or>
        (\<exists>rest. slurp_trace cfg fo w od s =
             [HttpDo req, TempFile] @ copy_events Tmpf (Body resp) @
             [TempSeek, SinkCreate (fullFilename_of cfg od) (int (length (concat (Body resp))))] @
             rest \<and>
           filter is_open rest = [])) \<and>
       (TempFile_err w = None \<and> (\<forall>d h. Write_err w d h = None) \<and> BodyErr resp = None \<and>
        Seek_err w = None \<and>
        Create_err w (fullFilename_of cfg od) (int (length (concat (Body resp)))) = None \<and>
        TempRead_err w = None \<longrightarrow>
          fst (slurp cfg fo w od s) = None \<and>
          slurp_trace cfg fo w od s =
            [HttpDo req, TempFile] @ copy_events Tmpf (Body resp) @
            [TempSeek, SinkCreate (fullFilename_of cfg od) (int (length (concat (Body resp))))] @
            write_events SinkWriter (chunks_of 32768 (concat (Body resp))) @
            [WriterClose SinkWriter, WriterClose Tmpf, TempRemove, BodyClose] \<and>
          written_to SinkWriter (slurp_trace cfg fo w od s) = concat (Body resp))) \<and>
    (\<not> (FixedSizeOnly fo \<and> ContentLength resp < 0) \<longrightarrow>
       filter on_temp (slurp_trace cfg fo w od s) = [] \<and>
       ((if StatusCode resp = 206 then Append_err w else Create_err w)
            (fullFilename_of cfg od) (ContentLength resp) = None \<and>
        (\<forall>h. Write_err w SinkWriter h = None) \<longrightarrow>
          slurp_trace cfg fo w od s =
            [HttpDo req,
             if StatusCode resp = 206 then SinkAppend (fullFilename_of cfg od) (ContentLength resp)
             else SinkCreate (fullFilename_of cfg od) (ContentLength resp)] @
            copy_events SinkWriter (Body resp) @ [WriterClose SinkWriter, BodyClose] \<and>
          written_to SinkWriter (slurp_trace cfg fo w od s) = concat (Body resp)))"
proof -
  let ?fn = "fullFilename_of cfg od"
  let ?n = "int (length (concat (Body resp)))"
  let ?s1 = "log_event (HttpDo req) s"
  let ?open = "slurp_open fo w ?fn resp (StatusCode resp = 206) ?s1"
  note sl = slurp_transfer [OF assms, of s]
  have ev: "events (snd (slurp cfg fo w od s)) = events (snd ?open) @ [BodyClose]"
    by (simp add: sl deferred_def log_event_def)
  have s1: "events ?s1 = events s @ [HttpDo req]" by (simp add: log_event_def)
  have buffered_shape: "filter on_sink (slurp_trace cfg fo w od s) = [] \<or>
        (\<exists>rest. slurp_trace cfg fo w od s =
             [HttpDo req, TempFile] @ copy_events Tmpf (Body resp) @
             [TempSeek, SinkCreate ?fn ?n] @ rest \<and> filter is_open rest = [])"
    if b: "FixedSizeOnly fo \<and> ContentLength resp < 0"
    using slurp_open_buffered_shape [OF b, of w ?fn "StatusCode resp = 206" ?s1]
  proof
    assume "filter on_sink (events (snd ?open)) = filter on_sink (events ?s1)"
    then have "filter on_sink (events (snd (slurp cfg fo w od s))) = filter on_sink (events s) @ []"
      by (simp add: ev s1)
    then show ?thesis by (simp add: slurp_trace_filter)
  next
    assume "\<exists>rest. events (snd ?open) =
             events ?s1 @ TempFile # copy_events Tmpf (Body resp) @
             TempSeek # SinkCreate ?fn ?n # rest \<and> filter is_open rest = []"
    then obtain rest where r: "events (snd ?open) =
             events ?s1 @ TempFile # copy_events Tmpf (Body resp) @
             TempSeek # SinkCreate ?fn ?n # rest" and o: "filter is_open rest = []"
      by blast
    have "events (snd (slurp cfg fo w od s)) = events s @ ([HttpDo req, TempFile] @ copy_events Tmpf (Body resp) @
             [TempSeek, SinkCreate ?fn ?n] @ (rest @ [BodyClose]))"
      by (simp add: ev r s1)
    then have "slurp_trace cfg fo w od s = [HttpDo req, TempFile] @ copy_events Tmpf (Body resp) @
             [TempSeek, SinkCreate ?fn ?n] @ (rest @ [BodyClose])"
      by (rule slurp_trace_eq)
    moreover have "filter is_open (rest @ [BodyClose]) = []" using o by simp
    ultimately show ?thesis by blast
  qed
  have buffered_ok: "fst (slurp cfg fo w od s) = None \<and>
          slurp_trace cfg fo w od s =
            [HttpDo req, TempFile] @ copy_events Tmpf (Body resp) @
            [TempSeek, SinkCreate ?fn ?n] @
            write_events SinkWriter (chunks_of 32768 (concat (Body resp))) @
            [WriterClose SinkWriter, WriterClose Tmpf, TempRemove, BodyClose] \<and>
          written_to SinkWriter (slurp_trace cfg fo w od s) = concat (Body resp)"
    if b: "FixedSizeOnly fo \<and> ContentLength resp < 0"
      and ok: "TempFile_err w = None \<and> (\<forall>d h. Write_err w d h = None) \<and> BodyErr resp = None \<and>
        Seek_err w = None \<and> Create_err w ?fn ?n = None \<and> TempRead_err w = None"
  proof -
    from ok have wr: "\<And>d h. Write_err w d h = None" by simp
    note op = slurp_open_buffered_ok [OF b _ wr, of ?fn "StatusCode resp = 206" ?s1]
    from ok have o: "?open = (None,
      \<lparr>events = events ?s1 @ TempFile # copy_events Tmpf (Body resp) @
                 [TempSeek, SinkCreate ?fn ?n] @
                 write_events SinkWriter (chunks_of 32768 (concat (Body resp))) @
                 [WriterClose SinkWriter, WriterClose Tmpf, TempRemove],
       counter = counter ?s1 + of_nat (length (concat (Body resp))),
       tmpf = concat (Body resp)\<rparr>)"
      by (simp add: op)
    have t: "slurp_trace cfg fo w od s =
            [HttpDo req, TempFile] @ copy_events Tmpf (Body resp) @
            [TempSeek, SinkCreate ?fn ?n] @
            write_events SinkWriter (chunks_of 32768 (concat (Body resp))) @
            [WriterClose SinkWriter, WriterClose Tmpf, TempRemove, BodyClose]"
      by (rule slurp_trace_eq) (simp add: ev o s1)
    have "fst (slurp cfg fo w od s) = None" by (simp add: sl deferred_def o)
    moreover have "written_to SinkWriter (slurp_trace cfg fo w od s) = concat (Body resp)"
      unfolding t
      by (simp add: written_to_append written_to_copy_events written_to_write_events
          concat_chunks_of)
    ultimately show ?thesis using t by simp
  qed
  have direct_temp: "filter on_temp (slurp_trace cfg fo w od s) = []"
    if d: "\<not> (FixedSizeOnly fo \<and> ContentLength resp < 0)"
  proof -
    have "filter on_temp (events (snd (slurp cfg fo w od s))) = filter on_temp (events s) @ []"
      by (simp add: ev slurp_open_direct_on_temp [OF d] s1)
    then show ?thesis by (rule slurp_trace_filter)
  qed
  have direct_ok: "slurp_trace cfg fo w od s =
            [HttpDo req,
             if StatusCode resp = 206 then SinkAppend ?fn (ContentLength resp)
             else SinkCreate ?fn (ContentLength resp)] @
            copy_events SinkWriter (Body resp) @ [WriterClose SinkWriter, BodyClose] \<and>
          written_to SinkWriter (slurp_trace cfg fo w od s) = concat (Body resp)"
    if d: "\<not> (FixedSizeOnly fo \<and> ContentLength resp < 0)"
      and ok: "(if StatusCode resp = 206 then Append_err w else Create_err w) ?fn (ContentLength resp) = None \<and>
        (\<forall>h. Write_err w SinkWriter h = None)"
  proof -
    from ok have wr: "\<And>h. Write_err w SinkWriter h = None" by simp
    from ok have op: "(if StatusCode resp = 206 then Append_err w else Create_err w) ?fn (ContentLength resp) = None"
      by simp
    note o = slurp_open_direct_ok [OF d op wr, of ?s1]
    have t: "slurp_trace cfg fo w od s =
            [HttpDo req,
             if StatusCode resp = 206 then SinkAppend ?fn (ContentLength resp)
             else SinkCreate ?fn (ContentLength resp)] @
            copy_events SinkWriter (Body resp) @ [WriterClose SinkWriter, BodyClose]"
      by (rule slurp_trace_eq) (simp add: ev o s1)
    show ?thesis
      unfolding t by (simp add: written_to_append written_to_copy_events)
  qed
  show ?thesis
    using buffered_shape buffered_ok direct_temp direct_ok by blast
qed

text \<open>A body of five bytes in two reads, once buffered and once streamed.\<close>

theorem slurp_buffers_unknown_size_witness:
  "slurp_trace flags_default archive_sink (quiet_world None (reply 200 (-1))) example_order fresh =
     [HttpDo plain_request, TempFile, BodyRead 3, WriterWrite Tmpf ''abc'', BodyRead 2,
      WriterWrite Tmpf ''de'', BodyRead 0, TempSeek, SinkCreate ''a.txt'' 5,
      WriterWrite SinkWriter ''abcde'', WriterClose SinkWriter, WriterClose Tmpf, TempRemove,
      BodyClose] \<and>
   slurp_trace flags_default direct_sink (quiet_world None (reply 200 5)) example_order fresh =
     [HttpDo plain_request, SinkCreate ''a.txt'' 5, BodyRead 3, WriterWrite SinkWriter ''abc'',
      BodyRead 2, WriterWrite SinkWriter ''de'', BodyRead 0, WriterClose SinkWriter, BodyClose]"
proof -
  have dry: "\<not> dryRun flags_default" by (simp add: flags_default_def)
  have do1: "Do (quiet_world None (reply 200 (-1))) plain_request = Inr (reply 200 (-1))"
    and do2: "Do (quiet_world None (reply 200 5)) plain_request = Inr (reply 200 5)"
    by (simp_all add: quiet_world_def)
  have st1: "StatusCode (reply 200 (-1)) = 200 \<or> StatusCode (reply 200 (-1)) = 206"
    and st2: "StatusCode (reply 200 5) = 200 \<or> StatusCode (reply 200 5) = 206"
    by (simp_all add: reply_def)
  have ch: "chunks_of 32768 ''abcde'' = [''abcde'']"
    by (simp add: chunks_of.simps)
  from slurp_buffers_unknown_size [OF dry example_request_archive do1 st1, of fresh]
    slurp_buffers_unknown_size [OF dry example_request_direct do2 st2, of fresh]
  show ?thesis
    by (simp add: example_fullFilename archive_sink_def direct_sink_def reply_def quiet_world_def
        write_events_def ch)
qed

subsection \<open>A failed order\<close>

text \<open>
  Claim C4, the logged line being told exactly. A worker takes every order of its queue,
  whatever the earlier ones returned. For each order, in the order of the queue, the log
  receives the line \<open>Starting\<close> when the flag \<open>verbose\<close> is set, and, when \<open>slurp\<close> has
  returned an error, one line \<open>Failed downloading\<close> with the last path element of the
  address and that error; \<open>errorCount\<close> has grown by one for each order that failed; at
  the end \<open>done\<close> is closed.
\<close>

theorem slurper_failure_report:
  "logged (slurper cfg fo orders k) =
     logged k @ concat (map
       (\<lambda>(od, r). (if verbose cfg then [Starting (path_Base (url od))] else []) @
                  (case r of None \<Rightarrow> [] | Some err \<Rightarrow> [FailedDownloading (path_Base (url od)) err]))
       (slurp_results cfg fo orders (io k))) \<and>
   errorCount (slurper cfg fo orders k) =
     errorCount k +
     of_nat (length (filter (\<lambda>(od, r). r \<noteq> None) (slurp_results cfg fo orders (io k)))) \<and>
   map fst (slurp_results cfg fo orders (io k)) = map fst orders \<and>
   done_closed (slurper cfg fo orders k)"
  by (simp only: slurper_logged slurper_errorCount slurp_results_orders slurper_done_closed)

text \<open>Two orders that fail: the second is taken after the first has failed.\<close>

theorem slurper_failure_report_witness:
  "logged (slurper flags_default direct_sink
             [(example_order, denied_world), (other_order, denied_world)] idle) =
     [FailedDownloading ''a.txt'' (Passed ''permission denied''),
      FailedDownloading ''a.txt'' (Passed ''permission denied'')] \<and>
   errorCount (slurper flags_default direct_sink
             [(example_order, denied_world), (other_order, denied_world)] idle) = 2 \<and>
   done_closed (slurper flags_default direct_sink
             [(example_order, denied_world), (other_order, denied_world)] idle)"
proof -
  have v: "\<not> verbose flags_default" by (simp add: flags_default_def)
  have k: "logged idle = []" "errorCount idle = 0" by (simp_all add: idle_def)
  note r = slurper_failure_report [of flags_default direct_sink
        "[(example_order, denied_world), (other_order, denied_world)]" idle]
  have 1: "logged (slurper flags_default direct_sink
             [(example_order, denied_world), (other_order, denied_world)] idle) =
     [FailedDownloading ''a.txt'' (Passed ''permission denied''),
      FailedDownloading ''a.txt'' (Passed ''permission denied'')]"
    unfolding r [THEN conjunct1] by (simp add: slurp_denied example_Base v k)
  have 2: "errorCount (slurper flags_default direct_sink
             [(example_order, denied_world), (other_order, denied_world)] idle) = 2"
    unfolding r [THEN conjunct2, THEN conjunct1] by (simp add: slurp_denied k)
  show ?thesis
    using 1 2 r [THEN conjunct2, THEN conjunct2, THEN conjunct2] by simp
qed

text \<open>
  The line does not name the failed address. It holds \<open>path.Base\<close> of the address, its
  last path element, and the cause: two orders for different addresses that end in the
  same name fail with the same line.
\<close>

theorem failure_line_counterexample:
  "url example_order \<noteq> url other_order \<and>
   logged (slurper flags_default direct_sink [(example_order, denied_world)] idle) =
     [FailedDownloading ''a.txt'' (Passed ''permission denied'')] \<and>
   logged (slurper flags_default direct_sink [(other_order, denied_world)] idle) =
     [FailedDownloading ''a.txt'' (Passed ''permission denied'')]"
proof -
  have v: "\<not> verbose flags_default" by (simp add: flags_default_def)
  have k: "logged idle = []" by (simp add: idle_def)
  have u: "url example_order \<noteq> url other_order"
    by (simp add: example_order_def other_order_def)
  have "logged (slurper flags_default direct_sink [(od, denied_world)] idle) =
        [FailedDownloading (path_Base (url od)) (Passed ''permission denied'')]" for od
    unfolding slurper_logged by (simp add: slurp_denied v k)
  then show ?thesis by (simp add: u example_Base)
qed

subsection \<open>The byte counter of a run\<close>

text \<open>
  Claim C7, below the wrap-around. After a run of a worker, and after every call of
  \<open>slurp\<close>, the counter is its value at the start plus the bytes that the reads of the
  response bodies have delivered, modulo \<open>2\<^sup>6\<^sup>4\<close>. A call of \<open>slurp\<close> that has received a
  response counts at most the bytes of its body, and exactly those when it returns nil for
  a status 200 or 206, also when the body went through the temporary file and was copied
  from there. As long as the start value and the bytes read in the run stay below
  \<open>2\<^sup>6\<^sup>4\<close>, the value after \<open>i\<close> events is at most the value after \<open>j\<close> events for
  \<open>i \<le> j\<close>.
\<close>

theorem counter_accounting:
  "counter (io (slurper cfg fo orders k)) =
     counter_after (counter (io k)) (slurper_trace cfg fo orders k) \<and>
   counter (snd (slurp cfg fo w od s)) = counter_after (counter s) (slurp_trace cfg fo w od s) \<and>
   (\<not> dryRun cfg \<and> slurp_request cfg fo w od = Inr req \<and> Do w req = Inr resp \<longrightarrow>
      bytes_read (slurp_trace cfg fo w od s) \<le> length (concat (Body resp)) \<and>
      ((StatusCode resp = 200 \<or> StatusCode resp = 206) \<and> fst (slurp cfg fo w od s) = None \<longrightarrow>
         bytes_read (slurp_trace cfg fo w od s) = length (concat (Body resp)))) \<and>
   (\<forall>i j. i \<le> j \<and> unat (counter (io k)) + bytes_read (slurper_trace cfg fo orders k) < 2 ^ 64 \<longrightarrow>
      counter_after (counter (io k)) (take i (slurper_trace cfg fo orders k)) \<le>
      counter_after (counter (io k)) (take j (slurper_trace cfg fo orders k)))"
  using slurper_counter [of cfg fo orders k] slurp_counter [of cfg fo w od s]
    bytes_read_slurp [of cfg fo w od req resp s] slurp_done [of cfg fo w od req resp s]
    counter_after_take_mono [of _ _ "counter (io k)" "slurper_trace cfg fo orders k"]
  by blast

text \<open>
  A body of five bytes that is buffered and then copied: ten bytes are written, five are
  counted.
\<close>

theorem counter_accounting_witness:
  "slurper_trace flags_default archive_sink
     [(example_order, quiet_world None (reply 200 (-1)))] idle =
     [HttpDo plain_request, TempFile, BodyRead 3, WriterWrite Tmpf ''abc'', BodyRead 2,
      WriterWrite Tmpf ''de'', BodyRead 0, TempSeek, SinkCreate ''a.txt'' 5,
      WriterWrite SinkWriter ''abcde'', WriterClose SinkWriter, WriterClose Tmpf, TempRemove,
      BodyClose] \<and>
   counter (io (slurper flags_default archive_sink
     [(example_order, quiet_world None (reply 200 (-1)))] idle)) = 5 \<and>
   counter (snd (slurp flags_default archive_sink (quiet_world None (reply 200 (-1)))
                   example_order fresh)) = 5 \<and>
   bytes_read (slurp_trace flags_default archive_sink (quiet_world None (reply 200 (-1)))
                 example_order fresh) = 5 \<and>
   written_to SinkWriter (slurp_trace flags_default archive_sink
      (quiet_world None (reply 200 (-1))) example_order fresh) = ''abcde'' \<and>
   counter_after 0 (take 3 (slurper_trace flags_default archive_sink
     [(example_order, quiet_world None (reply 200 (-1)))] idle)) \<le>
   counter_after 0 (take 5 (slurper_trace flags_default archive_sink
     [(example_order, quiet_world None (reply 200 (-1)))] idle))"
proof -
  let ?w = "quiet_world None (reply 200 (-1))"
  let ?tr = "[HttpDo plain_request, TempFile, BodyRead 3, WriterWrite Tmpf ''abc'', BodyRead 2,
      WriterWrite Tmpf ''de'', BodyRead 0, TempSeek, SinkCreate ''a.txt'' 5,
      WriterWrite SinkWriter ''abcde'', WriterClose SinkWriter, WriterClose Tmpf, TempRemove,
      BodyClose]"
  have ok: "(200::int) = 200 \<or> (200::int) = 206" by simp
  have k: "io idle = fresh" by (simp add: idle_def)
  have f: "events fresh = []" "counter fresh = 0" by (simp_all add: fresh_def)
  have t: "slurp_trace flags_default archive_sink ?w example_order fresh = ?tr"
    by (rule slurp_trace_eq) (simp add: quiet_buffered [OF ok])
  have t': "slurper_trace flags_default archive_sink [(example_order, ?w)] idle = ?tr"
    by (simp add: slurper_trace_def slurper_def slurper_body_io k f quiet_buffered [OF ok])
  have b: "length (concat (Body (reply 200 (-1)))) = 5" "StatusCode (reply 200 (-1)) = 200"
    by (simp_all add: reply_def)
  have n: "fst (slurp flags_default archive_sink ?w example_order fresh) = None"
    by (simp add: quiet_buffered [OF ok])
  have r: "bytes_read ?tr = 5" by simp
  have c: "unat (counter (io idle)) + bytes_read ?tr < 2 ^ 64" by (simp add: k f)
  note ca = counter_accounting [where cfg = flags_default and fo = archive_sink
      and orders = "[(example_order, ?w)]" and k = idle and w = ?w and od = example_order
      and s = fresh and req = plain_request and resp = "reply 200 (-1)"]
  have 1: "counter (io (slurper flags_default archive_sink [(example_order, ?w)] idle)) = 5"
    unfolding ca [THEN conjunct1] t' by (simp add: k f counter_after_def)
  have 2: "counter (snd (slurp flags_default archive_sink ?w example_order fresh)) = 5"
    unfolding ca [THEN conjunct2, THEN conjunct1] t by (simp add: f counter_after_def)
  have 3: "bytes_read (slurp_trace flags_default archive_sink ?w example_order fresh) = 5"
    using ca [THEN conjunct2, THEN conjunct2, THEN conjunct1]
    by (simp add: b n not_dry example_request_archive quiet_Do)
  have 4: "counter_after 0 (take 3 ?tr) \<le> counter_after 0 (take 5 ?tr)"
    using ca [THEN conjunct2, THEN conjunct2, THEN conjunct2, rule_format, of 3 5] c
    unfolding t' by (simp only: k f) simp
  have 5: "written_to SinkWriter ?tr = ''abcde''" by simp
  show ?thesis
    unfolding t t' using 1 [unfolded t'] 2 [unfolded t] 3 [unfolded t] 4 5 by simp
qed

text \<open>
  Without the bound a later value can be smaller than an earlier one. The counter is a
  \<open>uint64\<close> and \<open>atomic.AddUint64\<close> wraps around: a transfer of five bytes that starts at
  the largest value ends at 4.
\<close>

theorem counter_wraps_counterexample:
  "counter (fresh\<lparr>counter := 0xFFFFFFFFFFFFFFFF\<rparr>) = 0xFFFFFFFFFFFFFFFF \<and>
   bytes_read (slurp_trace flags_default direct_sink (quiet_world None (reply 200 5)) example_order
                 (fresh\<lparr>counter := 0xFFFFFFFFFFFFFFFF\<rparr>)) = 5 \<and>
   counter (snd (slurp flags_default direct_sink (quiet_world None (reply 200 5)) example_order
                   (fresh\<lparr>counter := 0xFFFFFFFFFFFFFFFF\<rparr>))) = 4 \<and>
   counter (snd (slurp flags_default direct_sink (quiet_world None (reply 200 5)) example_order
                   (fresh\<lparr>counter := 0xFFFFFFFFFFFFFFFF\<rparr>))) <
   counter (fresh\<lparr>counter := 0xFFFFFFFFFFFFFFFF\<rparr>)"
proof -
  have ok: "(200::int) = 200 \<or> (200::int) = 206" by simp
  have t: "slurp_trace flags_default direct_sink (quiet_world None (reply 200 5)) example_order
             (fresh\<lparr>counter := 0xFFFFFFFFFFFFFFFF\<rparr>) =
           [HttpDo plain_request, SinkCreate ''a.txt'' 5, BodyRead 3,
            WriterWrite SinkWriter ''abc'', BodyRead 2, WriterWrite SinkWriter ''de'',
            BodyRead 0, WriterClose SinkWriter, BodyClose]"
    by (rule slurp_trace_eq) (simp add: quiet_direct [OF ok])
  show ?thesis
    unfolding t by (simp add: quiet_direct [OF ok])
qed

subsection \<open>Status 416\<close>

text \<open>
  Claim C8. When the response has status 416, \<open>slurp\<close> returns nil; it has sent the
  request and closed the body and nothing else: the sink is neither opened with \<open>Create\<close>
  or \<open>Append\<close> nor written to, and nothing but the trace has changed.
\<close>

theorem slurp_range_not_satisfiable:
  assumes "\<not> dryRun cfg" and "slurp_request cfg fo w od = Inr req" and "Do w req = Inr resp"
    and "StatusCode resp = 416"
  shows "fst (slurp cfg fo w od s) = None \<and>
         slurp_trace cfg fo w od s = [HttpDo req, BodyClose] \<and>
         filter on_sink (slurp_trace cfg fo w od s) = [] \<and>
         snd (slurp cfg fo w od s) = s\<lparr>events := events s @ [HttpDo req, BodyClose]\<rparr>"
proof -
  have e: "slurp cfg fo w od s = (None, s\<lparr>events := events s @ [HttpDo req, BodyClose]\<rparr>)"
    using assms(4)
    by (simp add: slurp_response [OF assms(1-3)] slurp_status_def deferred_def log_event_def)
  then have "events (snd (slurp cfg fo w od s)) = events s @ [HttpDo req, BodyClose]" by simp
  then have "slurp_trace cfg fo w od s = [HttpDo req, BodyClose]" by (rule slurp_trace_eq)
  with e show ?thesis by simp
qed

text \<open>The file of 7 bytes is complete: the server answers 416 to the request for the rest.\<close>

theorem slurp_range_not_satisfiable_witness:
  "fst (slurp flags_default direct_sink (quiet_world (Some 7) (reply 416 0)) example_order fresh) =
     None \<and>
   slurp_trace flags_default direct_sink (quiet_world (Some 7) (reply 416 0)) example_order fresh =
     [HttpDo range_request, BodyClose] \<and>
   snd (slurp flags_default direct_sink (quiet_world (Some 7) (reply 416 0)) example_order fresh) =
     \<lparr>events = [HttpDo range_request, BodyClose], counter = 0, tmpf = []\<rparr>"
proof -
  have st: "StatusCode (reply 416 0) = 416" by (simp add: reply_def)
  show ?thesis
    using slurp_range_not_satisfiable [OF not_dry example_request_range quiet_Do st,
        where s = fresh]
    by (simp add: fresh_def)
qed

subsection \<open>\<open>FileDone\<close>\<close>

text \<open>
  Claim C9. The messages that a worker sends on the \<open>ui\<close> channel are the \<open>FileDone\<close>
  messages, with the address, of exactly those orders for which \<open>slurp\<close> has returned nil,
  in the order of the queue. In a dry run that is every order. An order that is answered
  with status 416 makes \<open>slurp\<close> return nil and is reported by the same message.
\<close>

theorem slurper_FileDone:
  "ui (slurper cfg fo orders k) =
     ui k @ map (\<lambda>(od, r). FileDone (url od))
              (filter (\<lambda>(od, r). r = None) (slurp_results cfg fo orders (io k))) \<and>
   (dryRun cfg \<longrightarrow>
      ui (slurper cfg fo orders k) = ui k @ map (\<lambda>(od, w). FileDone (url od)) orders) \<and>
   (\<not> dryRun cfg \<and> slurp_request cfg fo w od = Inr req \<and> Do w req = Inr resp \<and>
    StatusCode resp = 416 \<longrightarrow>
      fst (slurp cfg fo w od (io k)) = None \<and>
      ui (slurper cfg fo [(od, w)] k) = ui k @ [FileDone (url od)])"
proof -
  have a: "ui (slurper cfg fo orders k) =
     ui k @ map (\<lambda>(od, r). FileDone (url od))
              (filter (\<lambda>(od, r). r = None) (slurp_results cfg fo orders (io k)))" for orders
    by (simp add: slurper_def slurper_loop_ui)
  have b: "ui (slurper cfg fo orders k) = ui k @ map (\<lambda>(od, w). FileDone (url od)) orders"
    if "dryRun cfg"
    by (simp add: a slurp_results_dryRun [OF that] filter_map comp_def case_prod_beta)
  have c: "fst (slurp cfg fo w od (io k)) = None \<and>
           ui (slurper cfg fo [(od, w)] k) = ui k @ [FileDone (url od)]"
    if "\<not> dryRun cfg" "slurp_request cfg fo w od = Inr req" "Do w req = Inr resp"
      "StatusCode resp = 416"
  proof -
    have "fst (slurp cfg fo w od (io k)) = None"
      using that(4)
      by (simp add: slurp_response [OF that(1-3)] slurp_status_def deferred_def)
    then show ?thesis by (simp add: a)
  qed
  show ?thesis using a b c by blast
qed

text \<open>
  A dry run of two orders; an order answered with 416; an order that is downloaded; an
  order that fails.
\<close>

theorem slurper_FileDone_witness:
  "ui (slurper (flags_default\<lparr>dryRun := True\<rparr>) direct_sink
         [(example_order, denied_world), (other_order, denied_world)] idle) =
     [FileDone ''http://example/dir/a.txt'', FileDone ''http://other/elsewhere/a.txt''] \<and>
   ui (slurper flags_default direct_sink
         [(example_order, quiet_world (Some 7) (reply 416 0))] idle) =
     [FileDone ''http://example/dir/a.txt''] \<and>
   ui (slurper flags_default direct_sink
         [(example_order, quiet_world None (reply 200 5))] idle) =
     [FileDone ''http://example/dir/a.txt''] \<and>
   ui (slurper flags_default direct_sink [(example_order, denied_world)] idle) = []"
proof -
  have dry: "dryRun (flags_default\<lparr>dryRun := True\<rparr>)" by simp
  have k: "ui idle = []" "io idle = fresh" by (simp_all add: idle_def)
  have u: "url example_order = ''http://example/dir/a.txt''"
    "url other_order = ''http://other/elsewhere/a.txt''"
    by (simp_all add: example_order_def other_order_def)
  have ok: "(200::int) = 200 \<or> (200::int) = 206" by simp
  have h: "\<not> dryRun flags_default \<and>
           slurp_request flags_default direct_sink (quiet_world (Some 7) (reply 416 0))
             example_order = Inr range_request \<and>
           Do (quiet_world (Some 7) (reply 416 0)) range_request = Inr (reply 416 0) \<and>
           StatusCode (reply 416 0) = 416"
    by (simp add: not_dry example_request_range quiet_Do) (simp add: reply_def)
  have 1: "ui (slurper (flags_default\<lparr>dryRun := True\<rparr>) direct_sink
         [(example_order, denied_world), (other_order, denied_world)] idle) =
     [FileDone ''http://example/dir/a.txt'', FileDone ''http://other/elsewhere/a.txt'']"
    unfolding slurper_FileDone [THEN conjunct2, THEN conjunct1, rule_format, OF dry]
    by (simp add: k u)
  have 2: "ui (slurper flags_default direct_sink
         [(example_order, quiet_world (Some 7) (reply 416 0))] idle) =
     [FileDone ''http://example/dir/a.txt'']"
    using slurper_FileDone [THEN conjunct2, THEN conjunct2, rule_format, OF h, where k = idle]
    by (simp add: k u)
  have 3: "ui (slurper flags_default direct_sink
         [(example_order, quiet_world None (reply 200 5))] idle) =
     [FileDone ''http://example/dir/a.txt'']"
    unfolding slurper_FileDone [THEN conjunct1]
    by (simp add: k u quiet_direct [OF ok])
  have 4: "ui (slurper flags_default direct_sink [(example_order, denied_world)] idle) = []"
    unfolding slurper_FileDone [THEN conjunct1]
    by (simp add: k slurp_denied)
  show ?thesis using 1 2 3 4 by simp
qed

subsection \<open>The destination path\<close>



end
